theory Spec2Isabelle
  imports Main "HOL-Library.Multiset" "HOL-Library.Char_ord" "HOL-Library.List_Lexorder"
begin

section \<open>The module registry of \<^verbatim>\<open>scripts/modular_build.py\<close>\<close>

text \<open>
  \<^verbatim>\<open>ModularBuildSystem.__init__\<close> builds \<^verbatim>\<open>self.modules\<close>, a dict from module
  names to dicts with the keys \<^verbatim>\<open>description\<close>, \<^verbatim>\<open>depends\<close>, \<^verbatim>\<open>headers\<close>,
  \<^verbatim>\<open>sources\<close>, \<^verbatim>\<open>defines\<close> and (for \<^verbatim>\<open>core\<close> only) \<^verbatim>\<open>required\<close>. A Python dict keeps
  its keys in insertion order, so the registry is an association list in declaration
  order; \<^verbatim>\<open>self.modules[name]\<close> and \<^verbatim>\<open>name in self.modules\<close> are \<open>map_of\<close>.
  The field \<open>required\<close> holds \<^verbatim>\<open>info.get('required', False)\<close>.
\<close>

record module_info =
  description :: string
  depends :: "string list"
  headers :: "string list"
  sources :: "string list"
  "defines" :: "string list"
  required :: bool

type_synonym registry = "(string \<times> module_info) list"

definition modules :: registry where
  "modules =
   [(''core'', \<lparr>description = ''Core types and utilities'', depends = [],
       headers = [''badcpplib/core.hpp''], sources = [],
       defines = [''BADCPPLIB_ENABLE_CORE''], required = True\<rparr>),
    (''result'', \<lparr>description = ''Result<T,E> type for error handling'', depends = [''core''],
       headers = [''badcpplib/result.hpp''], sources = [],
       defines = [''BADCPPLIB_ENABLE_RESULT''], required = False\<rparr>),
    (''string_utils'', \<lparr>description = ''String manipulation utilities'', depends = [''core''],
       headers = [''badcpplib/string_utils.hpp''], sources = [''modules/string_utils.cpp''],
       defines = [''BADCPPLIB_ENABLE_STRING''], required = False\<rparr>),
    (''math_utils'', \<lparr>description = ''Mathematical functions and utilities'', depends = [''core''],
       headers = [''badcpplib/math_utils.hpp''], sources = [''modules/math_utils.cpp''],
       defines = [''BADCPPLIB_ENABLE_MATH''], required = False\<rparr>),
    (''containers'', \<lparr>description = ''Custom container classes'', depends = [''core''],
       headers = [''badcpplib/containers.hpp''], sources = [],
       defines = [''BADCPPLIB_ENABLE_CONTAINERS''], required = False\<rparr>),
    (''file_utils'', \<lparr>description = ''File and filesystem utilities'',
       depends = [''core'', ''result''],
       headers = [''badcpplib/file_utils.hpp''], sources = [],
       defines = [''BADCPPLIB_ENABLE_FILE_UTILS''], required = False\<rparr>),
    (''time_utils'', \<lparr>description = ''Time and duration utilities'',
       depends = [''core'', ''result''],
       headers = [''badcpplib/time_utils.hpp''], sources = [],
       defines = [''BADCPPLIB_ENABLE_TIME_UTILS''], required = False\<rparr>),
    (''functional'', \<lparr>description = ''Functional programming utilities'', depends = [''core''],
       headers = [''badcpplib/functional.hpp''], sources = [],
       defines = [''BADCPPLIB_ENABLE_FUNCTIONAL''], required = False\<rparr>),
    (''debug'', \<lparr>description = ''Debug and logging utilities'',
       depends = [''core'', ''time_utils''],
       headers = [''badcpplib/debug.hpp''], sources = [],
       defines = [''BADCPPLIB_ENABLE_DEBUG''], required = False\<rparr>),
    (''memory'', \<lparr>description = ''Memory management utilities'', depends = [''core''],
       headers = [''badcpplib/memory.hpp''], sources = [],
       defines = [''BADCPPLIB_ENABLE_MEMORY''], required = False\<rparr>),
    (''test_framework'', \<lparr>description = ''Custom testing framework'', depends = [''core''],
       headers = [''badcpplib/test_framework.hpp''], sources = [''modules/test_framework.cpp''],
       defines = [''BADCPPLIB_ENABLE_TEST''], required = False\<rparr>)]"

text \<open>The keys of the registry, \<^verbatim>\<open>self.modules.keys()\<close>, in declaration order.\<close>

definition keys :: "registry \<Rightarrow> string list" where
  "keys reg = map fst reg"

section \<open>Errors\<close>

text \<open>
  The exceptions the modelled code raises: the two explicit \<^verbatim>\<open>raise ValueError(...)\<close>
  (the argument is the message), the \<^verbatim>\<open>KeyError\<close> of \<^verbatim>\<open>self.modules[name]\<close> on a
  missing key, and the interpreter's \<^verbatim>\<open>RecursionError\<close> when the nesting of calls of
  \<^verbatim>\<open>resolve_module\<close> exceeds the recursion limit. The source defines no exception class
  of its own; in particular it has no error for a cyclic dependency.
\<close>

datatype error = ValueError string | KeyError string | RecursionError

section \<open>\<^verbatim>\<open>resolve_dependencies\<close>\<close>

text \<open>
  \<^verbatim>\<open>resolve_module\<close> is a closure over the set \<^verbatim>\<open>resolved\<close>, which it mutates; the model
  passes the set in and returns the updated one. The first argument after the registry is
  the number of levels of the interpreter's recursion counter that are still free (its
  recursion limit less the levels in use). A call of \<^verbatim>\<open>resolve_module\<close> takes one level
  for as long as it runs, and a call made when none is free raises \<^verbatim>\<open>RecursionError\<close>.
  Inside the call, the two calls of builtins, \<^verbatim>\<open>ValueError(...)\<close> and
  \<^verbatim>\<open>resolved.add(name)\<close>, each take one level while they run, as CPython 3.11 counts
  them: in the last frame that the limit admits they raise \<^verbatim>\<open>RecursionError\<close>. The
  membership tests and the subscripts are no calls. \<open>resolve_each\<close> is the loop
  \<^verbatim>\<open>for dep in module['depends']: resolve_module(dep)\<close>; every call it makes is one level
  deeper than the frame the loop runs in. An exception leaves every enclosing loop at once.
\<close>

fun resolve_module :: "registry \<Rightarrow> nat \<Rightarrow> string \<Rightarrow> string set \<Rightarrow> error + string set"
  and resolve_each :: "registry \<Rightarrow> nat \<Rightarrow> string list \<Rightarrow> string set \<Rightarrow> error + string set"
where
  "resolve_module reg 0 name resolved = Inl RecursionError"
| "resolve_module reg (Suc d) name resolved =
     (if name \<in> resolved then Inr resolved
      else case map_of reg name of
        None \<Rightarrow>
          (if d = 0 then Inl RecursionError
           else Inl (ValueError (''Unknown module: '' @ name)))
      | Some module \<Rightarrow>
          (case resolve_each reg d (depends module) resolved of
             Inl e \<Rightarrow> Inl e
           | Inr resolved' \<Rightarrow>
               (if d = 0 then Inl RecursionError else Inr (insert name resolved'))))"
| "resolve_each reg d [] resolved = Inr resolved"
| "resolve_each reg d (dep # deps) resolved =
     (case resolve_module reg d dep resolved of
        Inl e \<Rightarrow> Inl e
      | Inr resolved' \<Rightarrow> resolve_each reg d deps resolved')"

text \<open>
  \<^verbatim>\<open>resolve_dependencies\<close> starts from the empty set, calls \<^verbatim>\<open>resolve_module('core')\<close> and
  then \<^verbatim>\<open>resolve_module\<close> on every requested name in turn: the same loop over
  \<^verbatim>\<open>'core'\<close> followed by the requested names. \<open>limit\<close> is the number of levels of the
  recursion counter that are free inside \<^verbatim>\<open>resolve_dependencies\<close>.
\<close>

definition resolve_dependencies :: "registry \<Rightarrow> nat \<Rightarrow> string list \<Rightarrow> error + string set" where
  "resolve_dependencies reg limit module_names =
     resolve_each reg limit (''core'' # module_names) {}"

subsection \<open>The dependency graph\<close>

text \<open>
  \<open>dep_rel reg\<close> holds the pairs (module, declared dependency). A set of names is
  dependency-closed when it contains every dependency declared by each of its members.
\<close>

definition dep_rel :: "registry \<Rightarrow> (string \<times> string) set" where
  "dep_rel reg = {(a, b). \<exists>m. map_of reg a = Some m \<and> b \<in> set (depends m)}"

definition dependency_closed :: "registry \<Rightarrow> string set \<Rightarrow> bool" where
  "dependency_closed reg S \<longleftrightarrow>
     (\<forall>n \<in> S. \<forall>m. map_of reg n = Some m \<longrightarrow> set (depends m) \<subseteq> S)"

text \<open>Every dependency declared in the registry is itself a key of the registry.\<close>

definition deps_known :: "registry \<Rightarrow> bool" where
  "deps_known reg \<longleftrightarrow> (\<forall>(n, m) \<in> set reg. set (depends m) \<subseteq> set (keys reg))"

text \<open>
  The pairs of \<open>dep_rel\<close> as a list, read off the registry entry by entry; it covers
  \<open>dep_rel\<close> and coincides with it when no key is declared twice.
\<close>

definition dep_pairs :: "registry \<Rightarrow> (string \<times> string) list" where
  "dep_pairs reg = concat (map (\<lambda>(n, m). map (Pair n) (depends m)) reg)"

section \<open>Console output, paths and external processes\<close>

text \<open>
  The effects of the build functions are kept in a \<open>world\<close>: \<open>printed\<close> holds the
  argument of every \<^verbatim>\<open>print\<close> call so far, oldest first (an empty string for
  \<^verbatim>\<open>print()\<close>), and \<open>invoked\<close> every command line passed to \<^verbatim>\<open>subprocess.run\<close> so far.
  Text outside ASCII is held as its UTF-8 bytes.
\<close>

record world =
  invoked :: "string list list"
  printed :: "string list"

definition py_print :: "string \<Rightarrow> world \<Rightarrow> world" where
  "py_print line w = w\<lparr>printed := printed w @ [line]\<rparr>"

text \<open>The class \<^verbatim>\<open>Colors\<close> and \<^verbatim>\<open>colorize\<close>.\<close>

definition RED :: string where "RED = CHR 0x1B # ''[91m''"
definition GREEN :: string where "GREEN = CHR 0x1B # ''[92m''"
definition YELLOW :: string where "YELLOW = CHR 0x1B # ''[93m''"
definition BLUE :: string where "BLUE = CHR 0x1B # ''[94m''"
definition MAGENTA :: string where "MAGENTA = CHR 0x1B # ''[95m''"
definition CYAN :: string where "CYAN = CHR 0x1B # ''[96m''"
definition WHITE :: string where "WHITE = CHR 0x1B # ''[97m''"
definition BOLD :: string where "BOLD = CHR 0x1B # ''[1m''"
definition UNDERLINE :: string where "UNDERLINE = CHR 0x1B # ''[4m''"
definition END :: string where "END = CHR 0x1B # ''[0m''"

definition colorize :: "string \<Rightarrow> string \<Rightarrow> string" where
  "colorize text color = color @ text @ END"

text \<open>\<^verbatim>\<open>sep.join(xs)\<close> and the decimal rendering of a count in an f-string.\<close>

fun join :: "string \<Rightarrow> string list \<Rightarrow> string" where
  "join sep [] = []"
| "join sep [x] = x"
| "join sep (x # y # ys) = x @ sep @ join sep (y # ys)"

fun str_nat :: "nat \<Rightarrow> string" where
  "str_nat n =
     (if n < 10 then [char_of (48 + n)]
      else str_nat (n div 10) @ [char_of (48 + n mod 10)])"

text \<open>
  The environment of a run. \<open>project_root\<close> is \<^verbatim>\<open>Path(__file__).parent.parent\<close>;
  \<open>exists\<close> answers \<^verbatim>\<open>Path.exists()\<close> for the source and test files (taken as fixed
  during a run); \<open>run\<close> is \<^verbatim>\<open>subprocess.run(cmd, capture_output=True, text=True)\<close>:
  given the command lines invoked before and the command line to run now, the completed
  process. The external program is taken to start: an \<^verbatim>\<open>OSError\<close> of
  \<^verbatim>\<open>subprocess.run\<close> and of \<^verbatim>\<open>mkdir\<close> is outside the model, and so is the working
  directory passed for a test executable. \<open>iter\<close> is the order in which Python's set
  iterator yields the members of each of the three set objects that \<^verbatim>\<open>main\<close> builds;
  that order depends on string hashes and on the history of insertions, not on the
  members alone.
\<close>

record completed_process =
  returncode :: int
  stdout :: string
  stderr :: string

datatype set_object = ModulesToBuild | ResolvedModules | TestModules

record env =
  project_root :: string
  exists :: "string \<Rightarrow> bool"
  run :: "string list list \<Rightarrow> string list \<Rightarrow> completed_process"
  iter :: "set_object \<Rightarrow> string set \<Rightarrow> string list"

definition subprocess_run :: "env \<Rightarrow> string list \<Rightarrow> world \<Rightarrow> completed_process \<times> world" where
  "subprocess_run e cmd w = (run e (invoked w) cmd, w\<lparr>invoked := invoked w @ [cmd]\<rparr>)"

text \<open>
  Paths are their string form under POSIX: \<^verbatim>\<open>a / b\<close> for a relative \<open>b\<close> joins with a
  slash, \<^verbatim>\<open>.name\<close> is the last component, and \<^verbatim>\<open>.stem\<close> drops the last suffix of the
  name as \<^verbatim>\<open>pathlib\<close> does (\<^verbatim>\<open>i = name.rfind('.')\<close>, the suffix is dropped when
  \<^verbatim>\<open>0 < i < len(name) - 1\<close>).
\<close>

definition path_join :: "string \<Rightarrow> string \<Rightarrow> string" where
  "path_join a b = a @ ''/'' @ b"

definition path_name :: "string \<Rightarrow> string" where
  "path_name p = rev (takeWhile (\<lambda>c. c \<noteq> CHR ''/'') (rev p))"

definition path_stem :: "string \<Rightarrow> string" where
  "path_stem p =
     (let name = path_name p in
      if CHR ''.'' \<notin> set name then name
      else let i = length name - 1 - length (takeWhile (\<lambda>c. c \<noteq> CHR ''.'') (rev name))
           in if 0 < i \<and> i < length name - 1 then take i name else name)"

definition include_dir :: "env \<Rightarrow> string" where
  "include_dir e = path_join (project_root e) ''include''"

definition src_dir :: "env \<Rightarrow> string" where
  "src_dir e = path_join (project_root e) ''src''"

definition build_dir :: "env \<Rightarrow> string" where
  "build_dir e = path_join (project_root e) ''build_cmake''"

definition tests_dir :: "env \<Rightarrow> string" where
  "tests_dir e = path_join (project_root e) ''tests''"

section \<open>Compiler commands\<close>

record compiler_info =
  command :: string
  flags :: "string list"

definition compilers :: "(string \<times> compiler_info) list" where
  "compilers =
   [(''g++'', \<lparr>command = ''g++'', flags = [''-std=c++17'', ''-Wall'', ''-Wextra'', ''-Wpedantic'']\<rparr>),
    (''clang++'', \<lparr>command = ''clang++'',
       flags = [''-std=c++17'', ''-Wall'', ''-Wextra'', ''-Wpedantic'']\<rparr>),
    (''cl'', \<lparr>command = ''cl'', flags = [''/std:c++17'', ''/W4'']\<rparr>)]"

definition get_compiler_command :: "string \<Rightarrow> string \<Rightarrow> error + string list" where
  "get_compiler_command compiler build_type =
     (case map_of compilers compiler of
        None \<Rightarrow> Inl (ValueError (''Unknown compiler: '' @ compiler))
      | Some comp_info \<Rightarrow>
          Inr ([command comp_info] @ flags comp_info @
               (if build_type = ''debug'' then
                  (if compiler = ''cl'' then [''/Od'', ''/Zi'', ''/MDd''] else [''-g'', ''-O0''])
                else if build_type = ''release'' then
                  (if compiler = ''cl'' then [''/O2'', ''/MD'', ''/DNDEBUG'']
                   else [''-O2'', ''-DNDEBUG''])
                else [])))"

section \<open>\<^verbatim>\<open>collect_sources\<close> and \<^verbatim>\<open>collect_defines\<close>\<close>

text \<open>
  Both functions take a Python set and iterate over it. The model receives the set as
  \<open>ms\<close>, the list of its members in the order the set iterator yields them.
  \<open>collect_module_sources\<close> is the inner loop over \<^verbatim>\<open>module['sources']\<close>: an existing
  file is appended to \<^verbatim>\<open>sources\<close>, a missing one is reported by a warning.
  \<^verbatim>\<open>self.modules[module_name]\<close> raises \<^verbatim>\<open>KeyError\<close> for a name that is no key.
\<close>

fun collect_module_sources ::
  "env \<Rightarrow> string list \<Rightarrow> string list \<Rightarrow> world \<Rightarrow> string list \<times> world" where
  "collect_module_sources e [] acc w = (acc, w)"
| "collect_module_sources e (src # rest) acc w =
     (let src_path = path_join (src_dir e) src in
      if exists e src_path then collect_module_sources e rest (acc @ [src_path]) w
      else collect_module_sources e rest acc
             (py_print (colorize (''Warning: file '' @ src_path @ '' not found'') YELLOW) w))"

fun collect_sources_loop ::
  "registry \<Rightarrow> env \<Rightarrow> string list \<Rightarrow> string list \<Rightarrow> world \<Rightarrow> (error + string list) \<times> world" where
  "collect_sources_loop reg e [] acc w = (Inr acc, w)"
| "collect_sources_loop reg e (module_name # ms) acc w =
     (case map_of reg module_name of
        None \<Rightarrow> (Inl (KeyError module_name), w)
      | Some module \<Rightarrow>
          (case collect_module_sources e (sources module) acc w of
             (acc', w') \<Rightarrow> collect_sources_loop reg e ms acc' w'))"

definition collect_sources ::
  "registry \<Rightarrow> env \<Rightarrow> string list \<Rightarrow> world \<Rightarrow> (error + string list) \<times> world" where
  "collect_sources reg e ms w = collect_sources_loop reg e ms [] w"

fun collect_defines_loop :: "registry \<Rightarrow> string list \<Rightarrow> string list \<Rightarrow> error + string list" where
  "collect_defines_loop reg [] acc = Inr acc"
| "collect_defines_loop reg (module_name # ms) acc =
     (case map_of reg module_name of
        None \<Rightarrow> Inl (KeyError module_name)
      | Some module \<Rightarrow> collect_defines_loop reg ms (acc @ defines module))"

definition collect_defines :: "registry \<Rightarrow> string list \<Rightarrow> error + string list" where
  "collect_defines reg ms = collect_defines_loop reg ms []"

section \<open>\<^verbatim>\<open>build_library\<close>\<close>

text \<open>
  The command line that compiles one source file to its object file. For \<^verbatim>\<open>cl\<close> it is
  a copy of \<^verbatim>\<open>cmd\<close> (the base command, the define flags, the include flag and all the
  sources) extended by \<^verbatim>\<open>/Fo\<close>, \<^verbatim>\<open>/c\<close> and the source; for the other compilers it is
  built afresh from \<^verbatim>\<open>get_compiler_command\<close>, whose result \<open>base\<close> is the one already
  obtained for \<^verbatim>\<open>cmd\<close>, since the function is pure.
\<close>

definition object_file :: "env \<Rightarrow> string \<Rightarrow> string \<Rightarrow> string" where
  "object_file e compiler src =
     path_join (build_dir e) (path_stem src @ (if compiler = ''cl'' then ''.obj'' else ''.o''))"

definition compile_command ::
  "env \<Rightarrow> string \<Rightarrow> string list \<Rightarrow> string list \<Rightarrow> string list \<Rightarrow> string \<Rightarrow> string list" where
  "compile_command e compiler base defs srcs src =
     (if compiler = ''cl'' then
        base @ map (\<lambda>d. ''/D'' @ d) defs @ [''/I'' @ include_dir e] @ srcs @
        [''/Fo'' @ object_file e compiler src, ''/c'', src]
      else
        base @ map (\<lambda>d. ''-D'' @ d) defs @ [''-I'' @ include_dir e] @
        [''-c'', src, ''-o'', object_file e compiler src])"

text \<open>
  The loop over \<^verbatim>\<open>sources\<close> (the same in both branches): it returns the list
  \<^verbatim>\<open>obj_files\<close>, or \<open>None\<close> when a compilation exits non-zero and
  \<^verbatim>\<open>build_library\<close> returns \<^verbatim>\<open>False\<close> from inside the loop.
\<close>

fun compile_sources ::
  "env \<Rightarrow> (string \<Rightarrow> string list) \<Rightarrow> (string \<Rightarrow> string) \<Rightarrow> string list \<Rightarrow> string list \<Rightarrow> world
   \<Rightarrow> string list option \<times> world" where
  "compile_sources e cmd_of obj_of [] obj_files w = (Some obj_files, w)"
| "compile_sources e cmd_of obj_of (src # rest) obj_files w =
     (case subprocess_run e (cmd_of src) (py_print (''Compiling '' @ path_name src @ ''...'') w) of
        (result, w') \<Rightarrow>
          if returncode result \<noteq> 0 then
            (None, py_print (stderr result)
                     (py_print (colorize (''Compilation error '' @ path_name src @ '':'') RED) w'))
          else compile_sources e cmd_of obj_of rest (obj_files @ [obj_of src]) w')"

definition create_library :: "env \<Rightarrow> string list \<Rightarrow> string \<Rightarrow> world \<Rightarrow> bool \<times> world" where
  "create_library e lib_cmd output_file w =
     (case subprocess_run e lib_cmd (py_print ''Creating library...'' w) of
        (result, w') \<Rightarrow>
          if returncode result \<noteq> 0 then
            (False, py_print (stderr result) (py_print (colorize ''Library creation error:'' RED) w'))
          else (True, py_print (colorize (''Library created: '' @ output_file) GREEN) w'))"

definition library_command :: "string \<Rightarrow> string \<Rightarrow> string list \<Rightarrow> string list" where
  "library_command compiler output_file obj_files =
     (if compiler = ''cl'' then [''lib'', ''/OUT:'' @ output_file] @ obj_files
      else [''ar'', ''rcs'', output_file] @ obj_files)"

definition build_library ::
  "registry \<Rightarrow> env \<Rightarrow> string list \<Rightarrow> string \<Rightarrow> string \<Rightarrow> world \<Rightarrow> (error + bool) \<times> world" where
  "build_library reg e ms compiler build_type w =
     (case collect_sources reg e ms
             (py_print (colorize (''Building library with modules: '' @ join '', '' (sort ms)) BOLD) w) of
        (Inl err, w1) \<Rightarrow> (Inl err, w1)
      | (Inr srcs, w1) \<Rightarrow>
          (case collect_defines reg ms of
             Inl err \<Rightarrow> (Inl err, w1)
           | Inr defs \<Rightarrow>
               if srcs = [] then
                 (Inr True, py_print (colorize ''No source files to compile'' YELLOW) w1)
               else
                 (case get_compiler_command compiler build_type of
                    Inl err \<Rightarrow> (Inl err, w1)
                  | Inr base \<Rightarrow>
                      (let output_file = path_join (build_dir e)
                             (''libbadcpplib.'' @ (if compiler = ''cl'' then ''lib'' else ''a''))
                       in case compile_sources e (compile_command e compiler base defs srcs)
                                 (object_file e compiler) srcs [] w1 of
                            (None, w2) \<Rightarrow> (Inr False, w2)
                          | (Some obj_files, w2) \<Rightarrow>
                              (case create_library e
                                      (library_command compiler output_file obj_files)
                                      output_file w2 of
                                 (ok, w3) \<Rightarrow> (Inr ok, w3))))))"

section \<open>\<^verbatim>\<open>build_tests\<close>\<close>

text \<open>
  Test discovery: \<^verbatim>\<open>tests/basic_test.cpp\<close> if it exists, then, for each module in the
  iteration order of the set, \<^verbatim>\<open>tests/modules/test_<module>.cpp\<close> if it exists.
\<close>

definition module_test_file :: "env \<Rightarrow> string \<Rightarrow> string" where
  "module_test_file e module_name =
     path_join (path_join (tests_dir e) ''modules'') (''test_'' @ module_name @ ''.cpp'')"

definition test_files :: "env \<Rightarrow> string list \<Rightarrow> string list" where
  "test_files e ms =
     (if exists e (path_join (tests_dir e) ''basic_test.cpp'')
      then [path_join (tests_dir e) ''basic_test.cpp''] else []) @
     filter (exists e) (map (module_test_file e) ms)"

definition test_executable :: "env \<Rightarrow> string \<Rightarrow> string \<Rightarrow> string" where
  "test_executable e compiler test_file =
     path_join (build_dir e) (path_stem test_file @ (if compiler = ''cl'' then ''.exe'' else []))"

text \<open>
  The command line that compiles one test, as the loop body assembles it: the base
  command, the define flags, the include flag, the test file, the sources of the
  modules and the output flag (\<open>test_command_line\<close>). The loop body obtains the parts
  anew for every test (\<open>test_command\<close>); \<^verbatim>\<open>collect_sources\<close> prints its warnings each
  time.
\<close>

definition test_command_line ::
  "env \<Rightarrow> string \<Rightarrow> string list \<Rightarrow> string list \<Rightarrow> string list \<Rightarrow> string \<Rightarrow> string list" where
  "test_command_line e compiler base defs srcs test_file =
     base @
     map (\<lambda>d. (if compiler = ''cl'' then ''/D'' else ''-D'') @ d) defs @
     [(if compiler = ''cl'' then ''/I'' else ''-I'') @ include_dir e] @
     [test_file] @ srcs @
     (if compiler = ''cl'' then [''/Fe'' @ test_executable e compiler test_file]
      else [''-o'', test_executable e compiler test_file])"

definition test_command ::
  "registry \<Rightarrow> env \<Rightarrow> string list \<Rightarrow> string \<Rightarrow> string \<Rightarrow> string \<Rightarrow> world
   \<Rightarrow> (error + string list) \<times> world" where
  "test_command reg e ms compiler build_type test_file w =
     (case get_compiler_command compiler build_type of
        Inl err \<Rightarrow> (Inl err, w)
      | Inr base \<Rightarrow>
          (case collect_defines reg ms of
             Inl err \<Rightarrow> (Inl err, w)
           | Inr defs \<Rightarrow>
               (case collect_sources reg e ms w of
                  (Inl err, w1) \<Rightarrow> (Inl err, w1)
                | (Inr srcs, w1) \<Rightarrow>
                    (Inr (test_command_line e compiler base defs srcs test_file), w1))))"

definition report_failed_test :: "completed_process \<Rightarrow> world \<Rightarrow> world" where
  "report_failed_test result w =
     (let w1 = py_print (colorize ([CHR 0xE2, CHR 0x9C, CHR 0x97] @ '' FAILED'') RED) w;
          w2 = (if stdout result \<noteq> [] then py_print (''STDOUT: '' @ stdout result) w1 else w1)
      in if stderr result \<noteq> [] then py_print (''STDERR: '' @ stderr result) w2 else w2)"

text \<open>
  The loop over \<^verbatim>\<open>test_files\<close>, with \<^verbatim>\<open>success_count\<close> as accumulator. A test whose
  compilation exits non-zero is reported and the loop continues with the next test; a
  test that compiles is run, and counts as passed when its executable exits with 0.
\<close>

fun run_tests ::
  "registry \<Rightarrow> env \<Rightarrow> string list \<Rightarrow> string \<Rightarrow> string \<Rightarrow> string list \<Rightarrow> nat \<Rightarrow> world
   \<Rightarrow> (error + nat) \<times> world" where
  "run_tests reg e ms compiler build_type [] success_count w = (Inr success_count, w)"
| "run_tests reg e ms compiler build_type (test_file # rest) success_count w =
     (case test_command reg e ms compiler build_type test_file
             (py_print (CHR 0x0A # ''Test: '' @ colorize (path_name test_file) CYAN) w) of
        (Inl err, w1) \<Rightarrow> (Inl err, w1)
      | (Inr cmd, w1) \<Rightarrow>
          (case subprocess_run e cmd w1 of
             (result, w2) \<Rightarrow>
               if returncode result \<noteq> 0 then
                 run_tests reg e ms compiler build_type rest success_count
                   (py_print (stderr result)
                      (py_print (colorize (''Test compilation error '' @ path_name test_file @ '':'') RED) w2))
               else
                 (case subprocess_run e [test_executable e compiler test_file] w2 of
                    (result', w3) \<Rightarrow>
                      if returncode result' = 0 then
                        run_tests reg e ms compiler build_type rest (success_count + 1)
                          (py_print (colorize ([CHR 0xE2, CHR 0x9C, CHR 0x93] @ '' PASSED'') GREEN) w3)
                      else
                        run_tests reg e ms compiler build_type rest success_count
                          (report_failed_test result' w3))))"

definition build_tests ::
  "registry \<Rightarrow> env \<Rightarrow> string list \<Rightarrow> string \<Rightarrow> string \<Rightarrow> world \<Rightarrow> (error + bool) \<times> world" where
  "build_tests reg e ms compiler build_type w =
     (let w1 = py_print (colorize ''Building and running tests'' BOLD) w in
      if test_files e ms = [] then
        (Inr True, py_print (colorize ''Test files not found'' YELLOW) w1)
      else
        (case run_tests reg e ms compiler build_type (test_files e ms) 0 w1 of
           (Inl err, w2) \<Rightarrow> (Inl err, w2)
         | (Inr success_count, w2) \<Rightarrow>
             (let total_count = length (test_files e ms);
                  w3 = py_print (CHR 0x0A # ''Test results: '' @
                         colorize (str_nat success_count @ ''/'' @ str_nat total_count) BOLD) w2
              in if success_count = total_count then
                   (Inr True,
                    py_print (colorize (''All tests passed successfully! '' @
                                        [CHR 0xE2, CHR 0x9C, CHR 0x93]) GREEN) w3)
                 else
                   (Inr False,
                    py_print (colorize (''Failed tests: '' @
                                        str_nat (total_count - success_count)) RED) w3))))"

section \<open>\<^verbatim>\<open>list_modules\<close> and \<^verbatim>\<open>main\<close>\<close>

fun list_modules_loop :: "registry \<Rightarrow> world \<Rightarrow> world" where
  "list_modules_loop [] w = w"
| "list_modules_loop ((name, info) # rest) w =
     (let status = (if required info then colorize ''[REQUIRED]'' GREEN else []);
          w1 = py_print (''  '' @ colorize name YELLOW @ '' '' @ status) w;
          w2 = py_print (''    '' @ description info) w1;
          w3 = (if depends info \<noteq> [] then
                  py_print (''    Dependencies: '' @ colorize (join '', '' (depends info)) MAGENTA) w2
                else w2)
      in list_modules_loop rest (py_print [] w3))"

definition list_modules :: "registry \<Rightarrow> world \<Rightarrow> world" where
  "list_modules reg w =
     list_modules_loop reg (py_print [] (py_print (colorize ''Available modules:'' (BOLD @ CYAN)) w))"

text \<open>The parsed command line: the attributes of \<^verbatim>\<open>args\<close>.\<close>

record args =
  arg_modules :: "string list"
  arg_list_modules :: bool
  arg_minimal :: bool
  arg_full :: bool
  arg_compiler :: string
  arg_build_type :: string
  arg_test :: bool
  arg_test_only :: bool

definition modules_to_build :: "registry \<Rightarrow> args \<Rightarrow> string set" where
  "modules_to_build reg a =
     (if arg_minimal a then {''core'', ''result''}
      else if arg_full a \<or> ''all'' \<in> set (arg_modules a) then set (keys reg)
      else set (arg_modules a))"

text \<open>\<^verbatim>\<open>test_modules = resolved_modules | {'test_framework'}\<close>.\<close>

definition test_modules :: "string set \<Rightarrow> string set" where
  "test_modules resolved_modules = resolved_modules \<union> {''test_framework''}"

text \<open>The loop that prints the selected modules, over \<^verbatim>\<open>sorted(resolved_modules)\<close>.\<close>

fun print_selected :: "registry \<Rightarrow> string list \<Rightarrow> world \<Rightarrow> (error + unit) \<times> world" where
  "print_selected reg [] w = (Inr (), w)"
| "print_selected reg (module # rest) w =
     (case map_of reg module of
        None \<Rightarrow> (Inl (KeyError module), w)
      | Some info \<Rightarrow>
          print_selected reg rest
            (py_print (''  '' @ [CHR 0xE2, CHR 0x80, CHR 0xA2] @ '' '' @ colorize module YELLOW @
                       '' - '' @ description info) w))"

text \<open>
  \<open>main_body\<close> is the \<^verbatim>\<open>try\<close> block of \<^verbatim>\<open>main\<close>; its value is the exception that left
  it or the final \<^verbatim>\<open>success\<close>. \<open>error_message\<close> is \<^verbatim>\<open>str(e)\<close> of the handler (for
  \<^verbatim>\<open>RecursionError\<close> the interpreter's message, which may carry a suffix).
\<close>

definition main_body ::
  "registry \<Rightarrow> env \<Rightarrow> nat \<Rightarrow> args \<Rightarrow> world \<Rightarrow> (error + bool) \<times> world" where
  "main_body reg e limit a w =
     (case resolve_dependencies reg limit (iter e ModulesToBuild (modules_to_build reg a)) of
        Inl err \<Rightarrow> (Inl err, w)
      | Inr resolved_modules \<Rightarrow>
          (case print_selected reg (sorted_list_of_set resolved_modules)
                  (py_print (colorize ''Selected modules:'' BOLD) w) of
             (Inl err, w1) \<Rightarrow> (Inl err, w1)
           | (Inr u, w1) \<Rightarrow>
               (case (if \<not> arg_test_only a then
                        build_library reg e (iter e ResolvedModules resolved_modules)
                          (arg_compiler a) (arg_build_type a) (py_print [] w1)
                      else (Inr True, py_print [] w1)) of
                  (Inl err, w2) \<Rightarrow> (Inl err, w2)
                | (Inr success, w2) \<Rightarrow>
                    if arg_test a \<or> arg_test_only a then
                      (case build_tests reg e (iter e TestModules (test_modules resolved_modules))
                              (arg_compiler a) (arg_build_type a) w2 of
                         (Inl err, w3) \<Rightarrow> (Inl err, w3)
                       | (Inr test_success, w3) \<Rightarrow> (Inr (success \<and> test_success), w3))
                    else (Inr success, w2))))"

fun error_message :: "error \<Rightarrow> string" where
  "error_message (ValueError msg) = msg"
| "error_message (KeyError k) = [CHR 0x27] @ k @ [CHR 0x27]"
| "error_message RecursionError = ''maximum recursion depth exceeded''"

definition main :: "registry \<Rightarrow> env \<Rightarrow> nat \<Rightarrow> args \<Rightarrow> world \<Rightarrow> int \<times> world" where
  "main reg e limit a w =
     (if arg_list_modules a then (0, list_modules reg w)
      else case main_body reg e limit a w of
             (Inl err, w') \<Rightarrow> (1, py_print (colorize (''Error: '' @ error_message err) RED) w')
           | (Inr success, w') \<Rightarrow> (if success then 0 else 1, w'))"

section \<open>Notions used to state the properties\<close>

text \<open>
  What \<^verbatim>\<open>collect_sources\<close> and \<^verbatim>\<open>collect_defines\<close> gather when every name is a key:
  module by module in the order given, each module's existing source files (its
  define tokens) in the order the module declares them.
\<close>

definition source_files :: "registry \<Rightarrow> env \<Rightarrow> string list \<Rightarrow> string list" where
  "source_files reg e ms =
     concat (map (\<lambda>n. case map_of reg n of
                          None \<Rightarrow> []
                        | Some m \<Rightarrow> filter (exists e) (map (path_join (src_dir e)) (sources m))) ms)"

definition define_tokens :: "registry \<Rightarrow> string list \<Rightarrow> string list" where
  "define_tokens reg ms =
     concat (map (\<lambda>n. case map_of reg n of None \<Rightarrow> [] | Some m \<Rightarrow> defines m) ms)"

text \<open>
  The first source file whose compilation exits non-zero, when the files are compiled
  in turn after the invocations \<open>history\<close>, together with the completed process.
\<close>

fun first_failure ::
  "env \<Rightarrow> (string \<Rightarrow> string list) \<Rightarrow> string list \<Rightarrow> string list list
   \<Rightarrow> (string \<times> completed_process) option" where
  "first_failure e cmd_of [] history = None"
| "first_failure e cmd_of (src # rest) history =
     (if returncode (run e history (cmd_of src)) \<noteq> 0
      then Some (src, run e history (cmd_of src))
      else first_failure e cmd_of rest (history @ [cmd_of src]))"

text \<open>A command line that starts the archiver, \<^verbatim>\<open>ar\<close> or \<^verbatim>\<open>lib\<close>.\<close>

definition is_archiver_command :: "string list \<Rightarrow> bool" where
  "is_archiver_command cmd \<longleftrightarrow> cmd \<noteq> [] \<and> (hd cmd = ''ar'' \<or> hd cmd = ''lib'')"






text \<open>The set iterator yields every member of a finite set once.\<close>

definition iterates :: "env \<Rightarrow> bool" where
  "iterates e \<longleftrightarrow> (\<forall>obj S. finite S \<longrightarrow> set (iter e obj S) = S \<and> distinct (iter e obj S))"

subsection \<open>Sample inputs\<close>

text \<open>
  An environment in which every file exists and every process exits with 0, except that
  compiling \<^verbatim>\<open>math_utils.cpp\<close> to an object file and compiling the test of
  \<^verbatim>\<open>string_utils\<close> fail; sets are iterated in sorted order.
\<close>

definition ok_process :: completed_process where
  "ok_process = \<lparr>returncode = 0, stdout = [], stderr = []\<rparr>"

definition sample_env :: env where
  "sample_env =
     \<lparr>project_root = ''/repo'',
      exists = (\<lambda>p. True),
      run = (\<lambda>history cmd.
               if ''-c'' \<in> set cmd \<and> ''/repo/src/modules/math_utils.cpp'' \<in> set cmd
               then \<lparr>returncode = 1, stdout = [], stderr = ''math_utils.cpp:1: error''\<rparr>
               else if ''/repo/tests/modules/test_string_utils.cpp'' \<in> set cmd
               then \<lparr>returncode = 1, stdout = [], stderr = ''test_string_utils.cpp:1: error''\<rparr>
               else ok_process),
      iter = (\<lambda>obj S. sorted_list_of_set S)\<rparr>"

definition empty_world :: world where
  "empty_world = \<lparr>invoked = [], printed = []\<rparr>"

text \<open>A registry with a dependency cycle between \<^verbatim>\<open>a\<close> and \<^verbatim>\<open>b\<close>.\<close>

definition plain_module :: "string list \<Rightarrow> string list \<Rightarrow> module_info" where
  "plain_module deps srcs =
     \<lparr>description = [], depends = deps, headers = [], sources = srcs, defines = [],
      required = False\<rparr>"

definition cyclic_registry :: registry where
  "cyclic_registry =
     [(''core'', plain_module [] []),
      (''a'', plain_module [''core'', ''b''] []),
      (''b'', plain_module [''a''] [])]"

text \<open>A registry in which \<^verbatim>\<open>core\<close> declares a dependency that is not registered.\<close>

definition ghost_registry :: registry where
  "ghost_registry = [(''core'', plain_module [''ghost''] [])]"

text \<open>
  Two registries over the same two source files, which differ only in which module
  declares which file; and one in which two modules declare the same file.
\<close>

definition registry_ab :: registry where
  "registry_ab =
     [(''core'', plain_module [] []),
      (''alpha'', plain_module [''core''] [''a.cpp'']),
      (''beta'', plain_module [''core''] [''b.cpp''])]"

definition registry_ba :: registry where
  "registry_ba =
     [(''core'', plain_module [] []),
      (''alpha'', plain_module [''core''] [''b.cpp'']),
      (''beta'', plain_module [''core''] [''a.cpp''])]"

definition registry_shared :: registry where
  "registry_shared =
     [(''core'', plain_module [] []),
      (''alpha'', plain_module [''core''] [''shared.cpp'']),
      (''beta'', plain_module [''core''] [''shared.cpp''])]"

text \<open>An environment in which compiling \<^verbatim>\<open>b.cpp\<close> fails.\<close>

definition env_b_fails :: env where
  "env_b_fails =
     \<lparr>project_root = ''/repo'',
      exists = (\<lambda>p. True),
      run = (\<lambda>history cmd.
               if ''-c'' \<in> set cmd \<and> ''/repo/src/b.cpp'' \<in> set cmd
               then \<lparr>returncode = 1, stdout = [], stderr = ''b.cpp:1: error''\<rparr>
               else ok_process),
      iter = (\<lambda>obj S. sorted_list_of_set S)\<rparr>"

section \<open>Properties of the resolver\<close>

subsection \<open>What a successful call returns\<close>

lemma resolve_module_SucE:
  assumes "resolve_module reg (Suc d) name R = Inr S" and "name \<notin> R"
  obtains m S' where "map_of reg name = Some m"
    and "resolve_each reg d (depends m) R = Inr S'" and "S = insert name S'"
  using assms by (auto split: option.splits sum.splits if_splits)

lemma resolve_each_ConsE:
  assumes "resolve_each reg d (dep # deps) R = Inr S"
  obtains S1 where "resolve_module reg d dep R = Inr S1" and "resolve_each reg d deps S1 = Inr S"
  using assms by (auto split: sum.splits)

lemma resolve_mono:
  "(\<forall>S. resolve_module reg d name R = Inr S \<longrightarrow> R \<subseteq> S \<and> name \<in> S)"
  "(\<forall>S. resolve_each reg d names R = Inr S \<longrightarrow> R \<subseteq> S \<and> set names \<subseteq> S)"
proof (induction reg d name R and reg d names R rule: resolve_module_resolve_each.induct)
  case (1 reg name resolved)
  then show ?case by simp
next
  case (2 reg d name resolved)
  show ?case
  proof (intro allI impI)
    fix S assume res: "resolve_module reg (Suc d) name resolved = Inr S"
    show "resolved \<subseteq> S \<and> name \<in> S"
    proof (cases "name \<in> resolved")
      case True with res show ?thesis by simp
    next
      case False
      from res False obtain m S' where m: "map_of reg name = Some m"
        and e: "resolve_each reg d (depends m) resolved = Inr S'" and S: "S = insert name S'"
        by (rule resolve_module_SucE)
      from 2 False m e have "resolved \<subseteq> S'" by blast
      with S show ?thesis by blast
    qed
  qed
next
  case (3 reg d resolved)
  then show ?case by simp
next
  case (4 reg d dep deps resolved)
  show ?case
  proof (intro allI impI)
    fix S assume res: "resolve_each reg d (dep # deps) resolved = Inr S"
    then obtain S1 where a: "resolve_module reg d dep resolved = Inr S1"
      and b: "resolve_each reg d deps S1 = Inr S" by (rule resolve_each_ConsE)
    from 4(1) a have s1: "resolved \<subseteq> S1 \<and> dep \<in> S1" by blast
    from 4(2) a b have s2: "S1 \<subseteq> S \<and> set deps \<subseteq> S" by blast
    from s1 s2 show "resolved \<subseteq> S \<and> set (dep # deps) \<subseteq> S" by auto
  qed
qed

lemma resolve_registered:
  "(\<forall>S. resolve_module reg d name R = Inr S \<longrightarrow> S \<subseteq> R \<union> set (keys reg))"
  "(\<forall>S. resolve_each reg d names R = Inr S \<longrightarrow> S \<subseteq> R \<union> set (keys reg))"
proof (induction reg d name R and reg d names R rule: resolve_module_resolve_each.induct)
  case (2 reg d name resolved)
  show ?case
  proof (intro allI impI)
    fix S assume res: "resolve_module reg (Suc d) name resolved = Inr S"
    show "S \<subseteq> resolved \<union> set (keys reg)"
    proof (cases "name \<in> resolved")
      case True with res show ?thesis by simp
    next
      case False
      from res False obtain m S' where m: "map_of reg name = Some m"
        and e: "resolve_each reg d (depends m) resolved = Inr S'" and S: "S = insert name S'"
        by (rule resolve_module_SucE)
      from 2 False m e have "S' \<subseteq> resolved \<union> set (keys reg)" by blast
      moreover from m have "name \<in> set (keys reg)"
        unfolding keys_def by (metis map_of_SomeD fst_conv image_eqI set_map)
      ultimately show ?thesis using S by blast
    qed
  qed
next
  case (4 reg d dep deps resolved)
  show ?case
  proof (intro allI impI)
    fix S assume res: "resolve_each reg d (dep # deps) resolved = Inr S"
    then obtain S1 where a: "resolve_module reg d dep resolved = Inr S1"
      and b: "resolve_each reg d deps S1 = Inr S" by (rule resolve_each_ConsE)
    from 4(1) a have s1: "S1 \<subseteq> resolved \<union> set (keys reg)" by blast
    from 4(2) a b have s2: "S \<subseteq> S1 \<union> set (keys reg)" by blast
    from s1 s2 show "S \<subseteq> resolved \<union> set (keys reg)" by blast
  qed
qed simp_all

lemma resolve_closed:
  "(\<forall>S. dependency_closed reg R \<longrightarrow> resolve_module reg d name R = Inr S \<longrightarrow> dependency_closed reg S)"
  "(\<forall>S. dependency_closed reg R \<longrightarrow> resolve_each reg d names R = Inr S \<longrightarrow> dependency_closed reg S)"
proof (induction reg d name R and reg d names R rule: resolve_module_resolve_each.induct)
  case (2 reg d name resolved)
  show ?case
  proof (intro allI impI)
    fix S assume cl: "dependency_closed reg resolved"
      and res: "resolve_module reg (Suc d) name resolved = Inr S"
    show "dependency_closed reg S"
    proof (cases "name \<in> resolved")
      case True with cl res show ?thesis by simp
    next
      case False
      from res False obtain m S' where m: "map_of reg name = Some m"
        and e: "resolve_each reg d (depends m) resolved = Inr S'" and S: "S = insert name S'"
        by (rule resolve_module_SucE)
      from 2 False m cl e have c': "dependency_closed reg S'" by blast
      from resolve_mono(2) e have "set (depends m) \<subseteq> S'" by blast
      with c' m S show ?thesis unfolding dependency_closed_def by auto
    qed
  qed
next
  case (4 reg d dep deps resolved)
  show ?case
  proof (intro allI impI)
    fix S assume cl: "dependency_closed reg resolved"
      and res: "resolve_each reg d (dep # deps) resolved = Inr S"
    from res obtain S1 where a: "resolve_module reg d dep resolved = Inr S1"
      and b: "resolve_each reg d deps S1 = Inr S" by (rule resolve_each_ConsE)
    from 4(1) cl a have "dependency_closed reg S1" by blast
    with 4(2) a b show "dependency_closed reg S" by blast
  qed
qed simp_all

lemma dep_rel_Image_depends:
  assumes "map_of reg name = Some m"
  shows "(dep_rel reg)\<^sup>* `` set (depends m) \<subseteq> (dep_rel reg)\<^sup>* `` {name}"
proof
  fix y assume "y \<in> (dep_rel reg)\<^sup>* `` set (depends m)"
  then obtain x where x: "x \<in> set (depends m)" "(x, y) \<in> (dep_rel reg)\<^sup>*" by blast
  from x(1) assms have "(name, x) \<in> dep_rel reg" unfolding dep_rel_def by blast
  from this x(2) have "(name, y) \<in> (dep_rel reg)\<^sup>*" by (rule converse_rtrancl_into_rtrancl)
  then show "y \<in> (dep_rel reg)\<^sup>* `` {name}" by blast
qed

lemma resolve_reach:
  "(\<forall>S. resolve_module reg d name R = Inr S \<longrightarrow> S \<subseteq> R \<union> (dep_rel reg)\<^sup>* `` {name})"
  "(\<forall>S. resolve_each reg d names R = Inr S \<longrightarrow> S \<subseteq> R \<union> (dep_rel reg)\<^sup>* `` set names)"
proof (induction reg d name R and reg d names R rule: resolve_module_resolve_each.induct)
  case (2 reg d name resolved)
  show ?case
  proof (intro allI impI)
    fix S assume res: "resolve_module reg (Suc d) name resolved = Inr S"
    show "S \<subseteq> resolved \<union> (dep_rel reg)\<^sup>* `` {name}"
    proof (cases "name \<in> resolved")
      case True with res show ?thesis by simp
    next
      case False
      from res False obtain m S' where m: "map_of reg name = Some m"
        and e: "resolve_each reg d (depends m) resolved = Inr S'" and S: "S = insert name S'"
        by (rule resolve_module_SucE)
      from 2 False m e have sub: "S' \<subseteq> resolved \<union> (dep_rel reg)\<^sup>* `` set (depends m)" by blast
      have "name \<in> (dep_rel reg)\<^sup>* `` {name}" by blast
      with sub dep_rel_Image_depends[OF m] S show ?thesis by blast
    qed
  qed
next
  case (4 reg d dep deps resolved)
  show ?case
  proof (intro allI impI)
    fix S assume res: "resolve_each reg d (dep # deps) resolved = Inr S"
    then obtain S1 where a: "resolve_module reg d dep resolved = Inr S1"
      and b: "resolve_each reg d deps S1 = Inr S" by (rule resolve_each_ConsE)
    from 4(1) a have s1: "S1 \<subseteq> resolved \<union> (dep_rel reg)\<^sup>* `` {dep}" by blast
    from 4(2) a b have s2: "S \<subseteq> S1 \<union> (dep_rel reg)\<^sup>* `` set deps" by blast
    have "(dep_rel reg)\<^sup>* `` {dep} \<union> (dep_rel reg)\<^sup>* `` set deps = (dep_rel reg)\<^sup>* `` set (dep # deps)"
      by auto
    with s1 s2 show "S \<subseteq> resolved \<union> (dep_rel reg)\<^sup>* `` set (dep # deps)" by blast
  qed
qed simp_all

lemma closed_rtrancl:
  assumes "(x, y) \<in> (dep_rel reg)\<^sup>*" and "dependency_closed reg S" and "x \<in> S"
  shows "y \<in> S"
  using assms
proof (induction rule: rtrancl_induct)
  case base
  then show ?case by simp
next
  case (step y z)
  then have "y \<in> S" by blast
  moreover from step(2) obtain m where "map_of reg y = Some m" "z \<in> set (depends m)"
    unfolding dep_rel_def by blast
  ultimately show ?case using step(4) unfolding dependency_closed_def by blast
qed

lemma resolve_fresh_acyclic:
  "(\<forall>S. dependency_closed reg R \<longrightarrow> resolve_module reg d name R = Inr S \<longrightarrow>
      (\<forall>n \<in> S - R. (n, n) \<notin> (dep_rel reg)\<^sup>+))"
  "(\<forall>S. dependency_closed reg R \<longrightarrow> resolve_each reg d names R = Inr S \<longrightarrow>
      (\<forall>n \<in> S - R. (n, n) \<notin> (dep_rel reg)\<^sup>+))"
proof (induction reg d name R and reg d names R rule: resolve_module_resolve_each.induct)
  case (2 reg d name resolved)
  show ?case
  proof (intro allI impI)
    fix S assume cl: "dependency_closed reg resolved"
      and res: "resolve_module reg (Suc d) name resolved = Inr S"
    show "\<forall>n \<in> S - resolved. (n, n) \<notin> (dep_rel reg)\<^sup>+"
    proof (cases "name \<in> resolved")
      case True with res show ?thesis by simp
    next
      case False
      from res False obtain m S' where m: "map_of reg name = Some m"
        and e: "resolve_each reg d (depends m) resolved = Inr S'" and S: "S = insert name S'"
        by (rule resolve_module_SucE)
      from 2 False m cl e have ih: "\<forall>n \<in> S' - resolved. (n, n) \<notin> (dep_rel reg)\<^sup>+" by blast
      from resolve_closed(2) cl e have c': "dependency_closed reg S'" by blast
      from resolve_mono(2) e have deps: "set (depends m) \<subseteq> S'" by blast
      have "(name, name) \<notin> (dep_rel reg)\<^sup>+"
      proof
        assume "(name, name) \<in> (dep_rel reg)\<^sup>+"
        then obtain y where y: "(name, y) \<in> dep_rel reg" "(y, name) \<in> (dep_rel reg)\<^sup>*"
          by (blast dest: tranclD)
        from y(1) m have "y \<in> set (depends m)" unfolding dep_rel_def by auto
        with deps have "y \<in> S'" by blast
        with y(2) c' have "name \<in> S'" by (rule closed_rtrancl)
        with ih False have "(name, name) \<notin> (dep_rel reg)\<^sup>+" by blast
        with \<open>(name, name) \<in> (dep_rel reg)\<^sup>+\<close> show False by blast
      qed
      with ih S show ?thesis by blast
    qed
  qed
next
  case (4 reg d dep deps resolved)
  show ?case
  proof (intro allI impI)
    fix S assume cl: "dependency_closed reg resolved"
      and res: "resolve_each reg d (dep # deps) resolved = Inr S"
    from res obtain S1 where a: "resolve_module reg d dep resolved = Inr S1"
      and b: "resolve_each reg d deps S1 = Inr S" by (rule resolve_each_ConsE)
    from 4(1) cl a have i1: "\<forall>n \<in> S1 - resolved. (n, n) \<notin> (dep_rel reg)\<^sup>+" by blast
    from resolve_closed(1) cl a have "dependency_closed reg S1" by blast
    with 4(2) a b have i2: "\<forall>n \<in> S - S1. (n, n) \<notin> (dep_rel reg)\<^sup>+" by blast
    from i1 i2 show "\<forall>n \<in> S - resolved. (n, n) \<notin> (dep_rel reg)\<^sup>+" by blast
  qed
qed simp_all

lemma map_of_None_keys: "map_of reg n = None \<longleftrightarrow> n \<notin> set (keys reg)"
  unfolding keys_def by (simp add: map_of_eq_None_iff)

subsection \<open>What a failing call raises\<close>

text \<open>
  A failing call raises \<^verbatim>\<open>RecursionError\<close>, or the \<^verbatim>\<open>ValueError\<close> for a name that is
  reachable from the argument and is no key of the registry.
\<close>
lemma resolve_error:
  "(\<forall>e. resolve_module reg d name R = Inl e \<longrightarrow>
      e = RecursionError \<or>
      (\<exists>n. n \<notin> set (keys reg) \<and> (name, n) \<in> (dep_rel reg)\<^sup>* \<and> e = ValueError (''Unknown module: '' @ n)))"
  "(\<forall>e. resolve_each reg d names R = Inl e \<longrightarrow>
      e = RecursionError \<or>
      (\<exists>n. n \<notin> set (keys reg) \<and> n \<in> (dep_rel reg)\<^sup>* `` set names \<and> e = ValueError (''Unknown module: '' @ n)))"
proof (induction reg d name R and reg d names R rule: resolve_module_resolve_each.induct)
  case (2 reg d name resolved)
  show ?case
  proof (intro allI impI)
    fix e assume res: "resolve_module reg (Suc d) name resolved = Inl e"
    then have nin: "name \<notin> resolved" by (auto split: if_splits)
    show "e = RecursionError \<or>
      (\<exists>n. n \<notin> set (keys reg) \<and> (name, n) \<in> (dep_rel reg)\<^sup>* \<and> e = ValueError (''Unknown module: '' @ n))"
    proof (cases "map_of reg name")
      case None
      with res nin have "e = RecursionError \<or> e = ValueError (''Unknown module: '' @ name)"
        by (auto split: if_splits)
      moreover from None have "name \<notin> set (keys reg)" by (simp add: map_of_None_keys)
      ultimately show ?thesis by blast
    next
      case (Some m)
      show ?thesis
      proof (cases "resolve_each reg d (depends m) resolved")
        case (Inr S')
        with res nin Some have "e = RecursionError" by (auto split: if_splits)
        then show ?thesis by blast
      next
        case (Inl e')
        with res nin Some have e: "resolve_each reg d (depends m) resolved = Inl e" by simp
        with 2 nin Some have "e = RecursionError \<or>
        (\<exists>n. n \<notin> set (keys reg) \<and> n \<in> (dep_rel reg)\<^sup>* `` set (depends m) \<and> e = ValueError (''Unknown module: '' @ n))"
          by blast
        with dep_rel_Image_depends[OF Some] show ?thesis by blast
      qed
    qed
  qed
next
  case (4 reg d dep deps resolved)
  show ?case
  proof (intro allI impI)
    fix e assume res: "resolve_each reg d (dep # deps) resolved = Inl e"
    let ?G = "e = RecursionError \<or>
      (\<exists>n. n \<notin> set (keys reg) \<and> n \<in> (dep_rel reg)\<^sup>* `` set (dep # deps) \<and> e = ValueError (''Unknown module: '' @ n))"
    show ?G
    proof (cases "resolve_module reg d dep resolved")
      case (Inl e')
      with res have "e' = e" by simp
      with Inl 4(1) have "e = RecursionError \<or>
      (\<exists>n. n \<notin> set (keys reg) \<and> (dep, n) \<in> (dep_rel reg)\<^sup>* \<and> e = ValueError (''Unknown module: '' @ n))" by blast
      then show ?thesis by auto
    next
      case (Inr S1)
      with res have "resolve_each reg d deps S1 = Inl e" by simp
      with Inr 4(2) have "e = RecursionError \<or>
      (\<exists>n. n \<notin> set (keys reg) \<and> n \<in> (dep_rel reg)\<^sup>* `` set deps \<and> e = ValueError (''Unknown module: '' @ n))" by blast
      then show ?thesis by auto
    qed
  qed
qed simp_all

text \<open>
  When the recursion limit is hit with \<open>d\<close> levels free, the \<open>d\<close> nested calls follow a
  path of \<open>d\<close> names in the dependency graph, all but the last of them registered. Without
  a cycle such a path visits no name twice, so its registered part is no longer than the
  registry.
\<close>
lemma resolve_recursion_chain:
  "(resolve_module reg d name R = Inl RecursionError \<longrightarrow>
      (\<exists>ps. length ps = d \<and> set (butlast ps) \<subseteq> set (keys reg) \<and>
            successively (\<lambda>a b. (a, b) \<in> dep_rel reg) ps \<and> (ps \<noteq> [] \<longrightarrow> hd ps = name)))"
  "(resolve_each reg d names R = Inl RecursionError \<longrightarrow>
      (\<exists>y \<in> set names. \<exists>ps. length ps = d \<and> set (butlast ps) \<subseteq> set (keys reg) \<and>
            successively (\<lambda>a b. (a, b) \<in> dep_rel reg) ps \<and> (ps \<noteq> [] \<longrightarrow> hd ps = y)))"
proof (induction reg d name R and reg d names R rule: resolve_module_resolve_each.induct)
  case (1 reg name resolved)
  show ?case by simp
next
  case (2 reg d name resolved)
  show ?case
  proof
    assume res: "resolve_module reg (Suc d) name resolved = Inl RecursionError"
    let ?G = "\<exists>ps. length ps = Suc d \<and> set (butlast ps) \<subseteq> set (keys reg) \<and>
            successively (\<lambda>a b. (a, b) \<in> dep_rel reg) ps \<and> (ps \<noteq> [] \<longrightarrow> hd ps = name)"
    show ?G
    proof (cases "d = 0")
      case True
      then show ?thesis by (intro exI[of _ "[name]"]) simp
    next
      case False
      from res have nin: "name \<notin> resolved" by (auto split: if_splits)
      from res nin False obtain m where m: "map_of reg name = Some m"
        by (cases "map_of reg name") auto
      with res nin False have e: "resolve_each reg d (depends m) resolved = Inl RecursionError"
        by (auto split: sum.splits)
      with 2 nin m obtain y ps where y: "y \<in> set (depends m)" and ps: "length ps = d"
        "set (butlast ps) \<subseteq> set (keys reg)" "successively (\<lambda>a b. (a, b) \<in> dep_rel reg) ps"
        "ps \<noteq> [] \<longrightarrow> hd ps = y" by blast
      from ps(1) False have ne: "ps \<noteq> []" by auto
      from m have k: "name \<in> set (keys reg)" using map_of_None_keys[of reg name] by auto
      from y m have "(name, y) \<in> dep_rel reg" unfolding dep_rel_def by blast
      with ps(3,4) ne have "successively (\<lambda>a b. (a, b) \<in> dep_rel reg) (name # ps)"
        by (auto simp: successively_Cons)
      moreover from ne ps(2) k have "set (butlast (name # ps)) \<subseteq> set (keys reg)" by simp
      ultimately show ?thesis using ps(1) by (intro exI[of _ "name # ps"]) simp
    qed
  qed
next
  case (3 reg d resolved)
  show ?case by simp
next
  case (4 reg d dep deps resolved)
  show ?case
  proof
    assume res: "resolve_each reg d (dep # deps) resolved = Inl RecursionError"
    show "\<exists>y \<in> set (dep # deps). \<exists>ps. length ps = d \<and> set (butlast ps) \<subseteq> set (keys reg) \<and>
            successively (\<lambda>a b. (a, b) \<in> dep_rel reg) ps \<and> (ps \<noteq> [] \<longrightarrow> hd ps = y)"
    proof (cases "resolve_module reg d dep resolved")
      case (Inl e')
      with res have "resolve_module reg d dep resolved = Inl RecursionError" by simp
      with 4(1) show ?thesis by auto
    next
      case (Inr S1)
      with res have "resolve_each reg d deps S1 = Inl RecursionError" by simp
      with Inr 4(2) show ?thesis by auto
    qed
  qed
qed

lemma successively_trancl:
  "successively (\<lambda>a b. (a, b) \<in> r) (x # xs) \<Longrightarrow> y \<in> set xs \<Longrightarrow> (x, y) \<in> r\<^sup>+"
proof (induction xs arbitrary: x)
  case Nil
  then show ?case by simp
next
  case (Cons z zs)
  from Cons.prems(1) have xz: "(x, z) \<in> r" and rest: "successively (\<lambda>a b. (a, b) \<in> r) (z # zs)"
    by (auto simp: successively_Cons)
  show ?case
  proof (cases "y = z")
    case True with xz show ?thesis by blast
  next
    case False
    with Cons.prems(2) have "y \<in> set zs" by simp
    with Cons.IH rest have "(z, y) \<in> r\<^sup>+" by blast
    with xz show ?thesis by (rule trancl_into_trancl2)
  qed
qed

lemma successively_acyclic_distinct:
  "successively (\<lambda>a b. (a, b) \<in> r) xs \<Longrightarrow> \<forall>x \<in> set xs. (x, x) \<notin> r\<^sup>+ \<Longrightarrow> distinct xs"
proof (induction xs)
  case Nil
  then show ?case by simp
next
  case (Cons x xs)
  from Cons.prems(1) have "successively (\<lambda>a b. (a, b) \<in> r) xs"
    by (auto simp: successively_Cons)
  with Cons have "distinct xs" by simp
  moreover have "x \<notin> set xs"
  proof
    assume "x \<in> set xs"
    with Cons.prems(1) have "(x, x) \<in> r\<^sup>+" by (rule successively_trancl)
    with Cons.prems(2) show False by simp
  qed
  ultimately show ?case by simp
qed

lemma chain_length_bound:
  assumes "successively (\<lambda>a b. (a, b) \<in> dep_rel reg) ps" and "set ps \<subseteq> set (keys reg)"
    and "\<forall>x \<in> set ps. (x, x) \<notin> (dep_rel reg)\<^sup>+"
  shows "length ps \<le> length reg"
proof -
  from assms(1,3) have "distinct ps" by (rule successively_acyclic_distinct)
  then have "length ps = card (set ps)" by (simp add: distinct_card)
  also from assms(2) have "\<dots> \<le> card (set (keys reg))" by (simp add: card_mono)
  also have "\<dots> \<le> length (keys reg)" by (rule card_length)
  finally show ?thesis by (simp add: keys_def)
qed

lemma chain_length_bound_butlast:
  assumes "successively (\<lambda>a b. (a, b) \<in> dep_rel reg) ps" and "set (butlast ps) \<subseteq> set (keys reg)"
    and "\<forall>x \<in> set ps. (x, x) \<notin> (dep_rel reg)\<^sup>+"
  shows "length ps \<le> Suc (length reg)"
proof -
  from assms(1,3) have "distinct ps" by (rule successively_acyclic_distinct)
  then have "distinct (butlast ps)" by (rule distinct_butlast)
  then have "length (butlast ps) = card (set (butlast ps))" by (simp add: distinct_card)
  also from assms(2) have "\<dots> \<le> card (set (keys reg))" by (simp add: card_mono)
  also have "\<dots> \<le> length (keys reg)" by (rule card_length)
  finally show ?thesis by (simp add: keys_def)
qed

lemma deps_known_rtrancl:
  assumes "(x, y) \<in> (dep_rel reg)\<^sup>*" and "deps_known reg" and "x \<in> set (keys reg)"
  shows "y \<in> set (keys reg)"
  using assms
proof (induction rule: rtrancl_induct)
  case base
  then show ?case by simp
next
  case (step y z)
  from step(2) obtain m where m: "map_of reg y = Some m" "z \<in> set (depends m)"
    unfolding dep_rel_def by blast
  from m(1) have "(y, m) \<in> set reg" by (rule map_of_SomeD)
  with step(4) m(2) show ?case unfolding deps_known_def by blast
qed

lemma chain_reach:
  assumes "successively (\<lambda>a b. (a, b) \<in> r) ps" and "x \<in> set ps"
  shows "(hd ps, x) \<in> r\<^sup>*"
proof (cases ps)
  case Nil with assms show ?thesis by simp
next
  case (Cons p qs)
  show ?thesis
  proof (cases "x = p")
    case True with Cons show ?thesis by simp
  next
    case False
    with assms Cons have "x \<in> set qs" by simp
    with assms(1) Cons have "(p, x) \<in> r\<^sup>+" by (auto intro: successively_trancl)
    with Cons show ?thesis by simp
  qed
qed

subsection \<open>\<^verbatim>\<open>resolve_dependencies\<close> as a whole\<close>

lemma dependency_closed_empty: "dependency_closed reg {}"
  by (simp add: dependency_closed_def)

lemma resolve_each_finite:
  assumes "resolve_each reg d names R = Inr S" and "finite R"
  shows "finite S"
proof -
  from resolve_registered(2) assms(1) have "S \<subseteq> R \<union> set (keys reg)" by blast
  with assms(2) show ?thesis by (meson finite_UnI finite_set finite_subset)
qed

lemma resolve_dependencies_Inr:
  assumes "resolve_dependencies reg limit R = Inr S"
  shows "S = (dep_rel reg)\<^sup>* `` insert ''core'' (set R)"
    and "dependency_closed reg S"
    and "S \<subseteq> set (keys reg)"
    and "\<forall>n \<in> S. (n, n) \<notin> (dep_rel reg)\<^sup>+"
    and "finite S"
proof -
  from assms have r: "resolve_each reg limit (''core'' # R) {} = Inr S"
    by (simp add: resolve_dependencies_def)
  from resolve_closed(2) dependency_closed_empty r show cl: "dependency_closed reg S" by blast
  from resolve_registered(2) r show "S \<subseteq> set (keys reg)" by blast
  from resolve_fresh_acyclic(2) dependency_closed_empty r
  show "\<forall>n \<in> S. (n, n) \<notin> (dep_rel reg)\<^sup>+" by blast
  from r show "finite S" by (rule resolve_each_finite) simp
  from resolve_mono(2) r have sub: "set (''core'' # R) \<subseteq> S" by blast
  from resolve_reach(2) r have up: "S \<subseteq> (dep_rel reg)\<^sup>* `` set (''core'' # R)" by blast
  have "(dep_rel reg)\<^sup>* `` set (''core'' # R) \<subseteq> S"
  proof
    fix y assume "y \<in> (dep_rel reg)\<^sup>* `` set (''core'' # R)"
    then obtain x where "x \<in> set (''core'' # R)" "(x, y) \<in> (dep_rel reg)\<^sup>*" by blast
    with sub cl show "y \<in> S" by (blast intro: closed_rtrancl)
  qed
  with up show "S = (dep_rel reg)\<^sup>* `` insert ''core'' (set R)" by simp
qed

lemma resolve_each_total:
  assumes ok: "\<forall>y \<in> (dep_rel reg)\<^sup>* `` set names. y \<in> set (keys reg) \<and> (y, y) \<notin> (dep_rel reg)\<^sup>+"
    and lim: "length reg < d"
  shows "\<exists>S. resolve_each reg d names R0 = Inr S"
proof (cases "resolve_each reg d names R0")
  case (Inr S)
  then show ?thesis by blast
next
  case (Inl err)
  with resolve_error(2) have "err = RecursionError \<or>
      (\<exists>n. n \<notin> set (keys reg) \<and> n \<in> (dep_rel reg)\<^sup>* `` set names \<and>
           err = ValueError (''Unknown module: '' @ n))" by blast
  with ok have "err = RecursionError" by blast
  with Inl resolve_recursion_chain(2) obtain y ps where y: "y \<in> set names"
    and ps: "length ps = d"
      "successively (\<lambda>a b. (a, b) \<in> dep_rel reg) ps" "ps \<noteq> [] \<longrightarrow> hd ps = y" by blast
  from ps(1) lim have "ps \<noteq> []" by auto
  with ps(3) have hd: "hd ps = y" by simp
  have reach: "x \<in> (dep_rel reg)\<^sup>* `` set names" if "x \<in> set ps" for x
  proof -
    from ps(2) that have "(hd ps, x) \<in> (dep_rel reg)\<^sup>*" by (rule chain_reach)
    with hd y show ?thesis by blast
  qed
  with ok have "\<forall>x \<in> set ps. (x, x) \<notin> (dep_rel reg)\<^sup>+" by blast
  moreover from reach ok have "set ps \<subseteq> set (keys reg)" by blast
  ultimately have "length ps \<le> length reg" using ps(2) by (intro chain_length_bound)
  with ps(1) lim show ?thesis by simp
qed

lemma resolve_dependencies_total:
  assumes "acyclic (dep_rel reg)" and "deps_known reg" and "''core'' \<in> set (keys reg)"
    and "set R \<subseteq> set (keys reg)" and "length reg < limit"
  shows "\<exists>S. resolve_dependencies reg limit R = Inr S"
proof -
  have "\<forall>y \<in> (dep_rel reg)\<^sup>* `` set (''core'' # R).
          y \<in> set (keys reg) \<and> (y, y) \<notin> (dep_rel reg)\<^sup>+"
  proof
    fix y assume "y \<in> (dep_rel reg)\<^sup>* `` set (''core'' # R)"
    then obtain x where x: "x \<in> set (''core'' # R)" "(x, y) \<in> (dep_rel reg)\<^sup>*" by blast
    from x(1) assms(3,4) have "x \<in> set (keys reg)" by auto
    with x(2) assms(2) have "y \<in> set (keys reg)" by (rule deps_known_rtrancl)
    moreover from assms(1) have "(y, y) \<notin> (dep_rel reg)\<^sup>+" by (simp add: acyclic_def)
    ultimately show "y \<in> set (keys reg) \<and> (y, y) \<notin> (dep_rel reg)\<^sup>+" ..
  qed
  from resolve_each_total[OF this assms(5)] show ?thesis
    by (simp add: resolve_dependencies_def)
qed

lemma resolve_dependencies_again:
  assumes r: "resolve_dependencies reg limit R = Inr S" and L: "set L = S"
    and lim: "length reg < limit"
  shows "resolve_dependencies reg limit L = Inr S"
proof -
  note props = resolve_dependencies_Inr[OF r]
  from props(1) have core: "''core'' \<in> S" by blast
  have img: "(dep_rel reg)\<^sup>* `` set (''core'' # L) = S"
  proof
    show "(dep_rel reg)\<^sup>* `` set (''core'' # L) \<subseteq> S"
      using core L props(2) by (auto intro: closed_rtrancl)
    show "S \<subseteq> (dep_rel reg)\<^sup>* `` set (''core'' # L)" using L by auto
  qed
  with props(3,4) have "\<forall>y \<in> (dep_rel reg)\<^sup>* `` set (''core'' # L).
          y \<in> set (keys reg) \<and> (y, y) \<notin> (dep_rel reg)\<^sup>+" by blast
  from resolve_each_total[OF this lim] obtain S' where
    "resolve_each reg limit (''core'' # L) {} = Inr S'" by blast
  then have r': "resolve_dependencies reg limit L = Inr S'" by (simp add: resolve_dependencies_def)
  from resolve_dependencies_Inr(1)[OF r'] img have "S' = S" by simp
  with r' show ?thesis by simp
qed

subsection \<open>The shipped registry\<close>

lemma dep_rel_subset_pairs: "dep_rel reg \<subseteq> set (dep_pairs reg)"
proof
  fix p assume "p \<in> dep_rel reg"
  then obtain a b m where p: "p = (a, b)" and m: "map_of reg a = Some m" and b: "b \<in> set (depends m)"
    unfolding dep_rel_def by blast
  from m have "(a, m) \<in> set reg" by (rule map_of_SomeD)
  with b p show "p \<in> set (dep_pairs reg)" unfolding dep_pairs_def by force
qed

lemma modules_keys:
  "keys modules = [''core'', ''result'', ''string_utils'', ''math_utils'', ''containers'',
     ''file_utils'', ''time_utils'', ''functional'', ''debug'', ''memory'', ''test_framework'']"
  by (simp add: keys_def modules_def)

lemma modules_deps_known: "deps_known modules"
  unfolding deps_known_def modules_keys by (simp add: modules_def)

lemma modules_acyclic: "acyclic (dep_rel modules)"
proof -
  define rank :: "string \<Rightarrow> nat" where
    "rank n = (if n = ''core'' then 0 else if n = ''result'' then 1
               else if n = ''time_utils'' then 2 else 3)" for n
  have "\<forall>(a, b) \<in> set (dep_pairs modules). rank b < rank a"
    by (simp add: dep_pairs_def modules_def rank_def)
  with dep_rel_subset_pairs[of modules] have "\<forall>(a, b) \<in> dep_rel modules. rank b < rank a"
    by blast
  then have "(dep_rel modules)\<inverse> \<subseteq> measure rank" by auto
  then have "wf ((dep_rel modules)\<inverse>)" by (rule wf_subset[OF wf_measure])
  then have "acyclic ((dep_rel modules)\<inverse>)" by (rule wf_acyclic)
  then show ?thesis by simp
qed

text \<open>
  Claim C1. For a registry whose dependency graph is acyclic and names only registered
  modules (as the shipped registry does), a request \<open>R\<close> of registered names and a
  recursion limit above the number of modules, \<^verbatim>\<open>resolve_dependencies(R)\<close> returns a set,
  and that set is dependency-closed: every name in the dependency list of each of its
  members is a member. (That any returned set is dependency-closed needs none of the
  hypotheses: \<open>resolve_dependencies_Inr\<close>.)
\<close>

theorem resolve_dependencies_dependency_closed:
  assumes "acyclic (dep_rel reg)" and "deps_known reg" and "''core'' \<in> set (keys reg)"
    and "set R \<subseteq> set (keys reg)" and "length reg < limit"
  shows "\<exists>S. resolve_dependencies reg limit R = Inr S \<and> dependency_closed reg S"
proof -
  from assms obtain S where "resolve_dependencies reg limit R = Inr S"
    using resolve_dependencies_total by blast
  moreover from this have "dependency_closed reg S" by (rule resolve_dependencies_Inr(2))
  ultimately show ?thesis by blast
qed

text \<open>
  The shipped registry with the request \<^verbatim>\<open>['debug', 'file_utils']\<close> and Python's default
  recursion limit satisfies the hypotheses of C1.
\<close>

theorem resolve_dependencies_dependency_closed_witness:
  "\<exists>S. resolve_dependencies modules 1000 [''debug'', ''file_utils''] = Inr S \<and>
       dependency_closed modules S"
  using resolve_dependencies_dependency_closed
          [of modules "[''debug'', ''file_utils'']" 1000, OF modules_acyclic modules_deps_known]
  by (simp add: modules_keys) (simp add: modules_def)

text \<open>
  Claim C7. Under the hypotheses of C1, with \<^verbatim>\<open>core\<close> registered without dependencies,
  the set returned for any request of registered names contains \<^verbatim>\<open>core\<close>, and the empty
  request resolves to exactly \<^verbatim>\<open>{'core'}\<close>.
\<close>

theorem resolve_dependencies_contains_core:
  assumes "acyclic (dep_rel reg)" and "deps_known reg"
    and "set R \<subseteq> set (keys reg)" and "length reg < limit"
    and "map_of reg ''core'' = Some core" and "depends core = []"
  shows "(\<exists>S. resolve_dependencies reg limit R = Inr S \<and> ''core'' \<in> S) \<and>
         resolve_dependencies reg limit [] = Inr {''core''}"
proof
  from assms(5) have k: "''core'' \<in> set (keys reg)"
    using map_of_None_keys[of reg "''core''"] by auto
  with assms(1-4) obtain S where S: "resolve_dependencies reg limit R = Inr S"
    using resolve_dependencies_total by blast
  from resolve_dependencies_Inr(1)[OF S] have "''core'' \<in> S" by blast
  with S show "\<exists>S. resolve_dependencies reg limit R = Inr S \<and> ''core'' \<in> S" by blast
  from assms(5) have "reg \<noteq> []" by auto
  with assms(4) have "1 < limit" by (cases reg) auto
  then obtain d where "limit = Suc (Suc d)" by (cases limit; cases "limit - 1") auto
  with assms(5,6) show "resolve_dependencies reg limit [] = Inr {''core''}"
    by (simp add: resolve_dependencies_def)
qed

text \<open>
  C7 at the shipped registry, for the request \<^verbatim>\<open>['memory']\<close> and for the empty request.
\<close>

theorem resolve_dependencies_contains_core_witness:
  "(\<exists>S. resolve_dependencies modules 1000 [''memory''] = Inr S \<and> ''core'' \<in> S) \<and>
   resolve_dependencies modules 1000 [] = Inr {''core''}"
  using resolve_dependencies_contains_core
          [of modules "[''memory'']" 1000 "the (map_of modules ''core'')",
           OF modules_acyclic modules_deps_known]
  by (simp add: modules_keys) (simp add: modules_def)

text \<open>
  Claim C8. Under the hypotheses of C1 the call returns a set \<open>S\<close>, and resolving \<open>S\<close>
  again, handed over as a list of its members in any order and with any repetitions,
  returns the same set: \<^verbatim>\<open>resolve(resolve(R)) == resolve(R)\<close>.
\<close>

theorem resolve_dependencies_idempotent:
  assumes "acyclic (dep_rel reg)" and "deps_known reg" and "''core'' \<in> set (keys reg)"
    and "set R \<subseteq> set (keys reg)" and "length reg < limit"
  shows "\<exists>S. resolve_dependencies reg limit R = Inr S \<and>
             (\<forall>L. set L = S \<longrightarrow> resolve_dependencies reg limit L = Inr S)"
proof -
  from assms obtain S where S: "resolve_dependencies reg limit R = Inr S"
    using resolve_dependencies_total by blast
  with assms(5) have "\<forall>L. set L = S \<longrightarrow> resolve_dependencies reg limit L = Inr S"
    by (blast intro: resolve_dependencies_again)
  with S show ?thesis by blast
qed

text \<open>
  C8 at the shipped registry for the request \<^verbatim>\<open>['debug']\<close>.
\<close>

theorem resolve_dependencies_idempotent_witness:
  "\<exists>S. resolve_dependencies modules 1000 [''debug''] = Inr S \<and>
       (\<forall>L. set L = S \<longrightarrow> resolve_dependencies modules 1000 L = Inr S)"
  using resolve_dependencies_idempotent
          [of modules "[''debug'']" 1000, OF modules_acyclic modules_deps_known]
  by (simp add: modules_keys) (simp add: modules_def)

text \<open>
  Claim C9. Under the hypotheses of C1 the returned set contains every requested name,
  and each of its members is a key of the registry.
\<close>

theorem resolve_dependencies_inflationary:
  assumes "acyclic (dep_rel reg)" and "deps_known reg" and "''core'' \<in> set (keys reg)"
    and "set R \<subseteq> set (keys reg)" and "length reg < limit"
  shows "\<exists>S. resolve_dependencies reg limit R = Inr S \<and> set R \<subseteq> S \<and> S \<subseteq> set (keys reg)"
proof -
  from assms obtain S where S: "resolve_dependencies reg limit R = Inr S"
    using resolve_dependencies_total by blast
  from resolve_dependencies_Inr(1)[OF S] have "set R \<subseteq> S" by blast
  moreover from S have "S \<subseteq> set (keys reg)" by (rule resolve_dependencies_Inr(3))
  ultimately show ?thesis using S by blast
qed

text \<open>
  C9 at the shipped registry for the request \<^verbatim>\<open>['string_utils', 'debug']\<close>.
\<close>

theorem resolve_dependencies_inflationary_witness:
  "\<exists>S. resolve_dependencies modules 1000 [''string_utils'', ''debug''] = Inr S \<and>
       set [''string_utils'', ''debug''] \<subseteq> S \<and> S \<subseteq> set (keys modules)"
  using resolve_dependencies_inflationary
          [of modules "[''string_utils'', ''debug'']" 1000, OF modules_acyclic modules_deps_known]
  by (simp add: modules_keys) (simp add: modules_def)

text \<open>
  The scenarios A and B of the specification, evaluated; the nesting
  \<^verbatim>\<open>debug\<close>, \<^verbatim>\<open>time_utils\<close>, \<^verbatim>\<open>result\<close>, \<^verbatim>\<open>core\<close> of scenario B needs four levels.
\<close>

lemma scenario_A: "resolve_dependencies modules 4 [''core''] = Inr {''core''}"
  by (simp add: resolve_dependencies_def modules_def eval_nat_numeral)

lemma scenario_B:
  "resolve_dependencies modules 4 [''debug''] = Inr {''core'', ''result'', ''time_utils'', ''debug''}"
  by (simp add: resolve_dependencies_def modules_def eval_nat_numeral insert_commute)

lemma scenario_B_depth:
  "resolve_dependencies modules 3 [''debug''] = Inl RecursionError"
  by (simp add: resolve_dependencies_def modules_def eval_nat_numeral)

subsection \<open>Cycles and unknown names\<close>

lemma resolve_each_cycle:
  assumes "n \<in> (dep_rel reg)\<^sup>* `` set names" and "(n, n) \<in> (dep_rel reg)\<^sup>+"
  shows "\<exists>err. resolve_each reg d names {} = Inl err"
proof (cases "resolve_each reg d names {}")
  case (Inl err)
  then show ?thesis by blast
next
  case (Inr S)
  from resolve_mono(2) Inr have sub: "set names \<subseteq> S" by blast
  from resolve_closed(2) dependency_closed_empty Inr have cl: "dependency_closed reg S" by blast
  from assms(1) obtain x where "x \<in> set names" "(x, n) \<in> (dep_rel reg)\<^sup>*" by blast
  with sub cl have "n \<in> S" by (blast intro: closed_rtrancl)
  moreover from resolve_fresh_acyclic(2) dependency_closed_empty Inr
  have "\<forall>n \<in> S. (n, n) \<notin> (dep_rel reg)\<^sup>+" by blast
  ultimately show ?thesis using assms(2) by blast
qed

lemma resolve_each_known:
  assumes "deps_known reg" and "set names \<subseteq> set (keys reg)"
    and "resolve_each reg d names R0 = Inl err"
  shows "err = RecursionError"
proof -
  from resolve_error(2) assms(3) have "err = RecursionError \<or>
      (\<exists>n. n \<notin> set (keys reg) \<and> n \<in> (dep_rel reg)\<^sup>* `` set names \<and>
           err = ValueError (''Unknown module: '' @ n))" by blast
  moreover have "\<forall>n \<in> (dep_rel reg)\<^sup>* `` set names. n \<in> set (keys reg)"
    using assms(1,2) by (blast intro: deps_known_rtrancl)
  ultimately show ?thesis by blast
qed

lemma resolve_each_no_recursion_error:
  assumes "acyclic (dep_rel reg)" and "Suc (length reg) < d"
  shows "resolve_each reg d names R0 \<noteq> Inl RecursionError"
proof
  assume "resolve_each reg d names R0 = Inl RecursionError"
  with resolve_recursion_chain(2) obtain ps where ps: "length ps = d"
    "set (butlast ps) \<subseteq> set (keys reg)" "successively (\<lambda>a b. (a, b) \<in> dep_rel reg) ps" by blast
  from assms(1) have "\<forall>x \<in> set ps. (x, x) \<notin> (dep_rel reg)\<^sup>+" by (simp add: acyclic_def)
  with ps(3,2) have "length ps \<le> Suc (length reg)" by (rule chain_length_bound_butlast)
  with ps(1) assms(2) show False by simp
qed

lemma resolve_each_unknown:
  assumes "n \<in> (dep_rel reg)\<^sup>* `` set names" and "n \<notin> set (keys reg)"
  shows "\<exists>err. resolve_each reg d names {} = Inl err"
proof (cases "resolve_each reg d names {}")
  case (Inl err)
  then show ?thesis by blast
next
  case (Inr S)
  from resolve_mono(2) Inr have sub: "set names \<subseteq> S" by blast
  from resolve_closed(2) dependency_closed_empty Inr have cl: "dependency_closed reg S" by blast
  from assms(1) obtain x where "x \<in> set names" "(x, n) \<in> (dep_rel reg)\<^sup>*" by blast
  with sub cl have "n \<in> S" by (blast intro: closed_rtrancl)
  moreover from resolve_registered(2) Inr have "S \<subseteq> set (keys reg)" by blast
  ultimately show ?thesis using assms(2) by blast
qed

lemma resolve_dependencies_empty:
  assumes "map_of reg ''core'' = Some core" and "depends core = []" and "1 < limit"
  shows "resolve_dependencies reg limit [] = Inr {''core''}"
proof -
  from assms(3) obtain d where "limit = Suc (Suc d)" by (cases limit; cases "limit - 1") auto
  with assms(1,2) show ?thesis by (simp add: resolve_dependencies_def)
qed

lemma cyclic_registry_facts:
  "deps_known cyclic_registry" "set (keys cyclic_registry) = {''core'', ''a'', ''b''}"
  "(''a'', ''b'') \<in> dep_rel cyclic_registry" "(''b'', ''a'') \<in> dep_rel cyclic_registry"
  by (simp_all add: deps_known_def keys_def dep_rel_def cyclic_registry_def plain_module_def)

text \<open>
  Claim C3 does not hold of the source, which has no cycle detection. In the registry
  \<open>cyclic_registry\<close> the modules \<^verbatim>\<open>a\<close> and \<^verbatim>\<open>b\<close> depend on each other. Requesting
  \<^verbatim>\<open>a\<close> makes \<^verbatim>\<open>resolve_module\<close> call itself for \<^verbatim>\<open>a\<close>, \<^verbatim>\<open>b\<close>, \<^verbatim>\<open>a\<close>, ... until the
  interpreter's recursion limit (here Python's default) raises \<^verbatim>\<open>RecursionError\<close>, the
  error of any recursion that is too deep, whose message names no cycle; the empty request
  over the same registry returns \<^verbatim>\<open>{'core'}\<close> and reports nothing.
\<close>

theorem resolve_dependencies_cycle_counterexample:
  "resolve_dependencies cyclic_registry 1000 [''a''] = Inl RecursionError \<and>
   resolve_dependencies cyclic_registry 1000 [] = Inr {''core''}"
proof
  have "(''a'', ''a'') \<in> (dep_rel cyclic_registry)\<^sup>+"
    using cyclic_registry_facts(3,4) by (rule trancl_into_trancl2[OF _ r_into_trancl])
  moreover have "''a'' \<in> (dep_rel cyclic_registry)\<^sup>* `` set [''core'', ''a'']" by auto
  ultimately obtain err where
    err: "resolve_each cyclic_registry 1000 [''core'', ''a''] {} = Inl err"
    using resolve_each_cycle by blast
  with cyclic_registry_facts(1,2) have "err = RecursionError"
    by (intro resolve_each_known[of cyclic_registry "[''core'', ''a'']" 1000 "{}"]) auto
  with err show "resolve_dependencies cyclic_registry 1000 [''a''] = Inl RecursionError"
    by (simp add: resolve_dependencies_def)
  show "resolve_dependencies cyclic_registry 1000 [] = Inr {''core''}"
    by (rule resolve_dependencies_empty[of _ "plain_module [] []"])
       (simp_all add: cyclic_registry_def plain_module_def)
qed

text \<open>
  Claim C3, amended. When a module on a dependency cycle is reachable from \<^verbatim>\<open>core\<close> or
  from a requested name, \<^verbatim>\<open>resolve_dependencies\<close> returns no set, truncated or other, for
  any recursion limit: it raises. When moreover every name involved is registered, the
  exception is the interpreter's \<^verbatim>\<open>RecursionError\<close>, which is distinct from the
  \<^verbatim>\<open>ValueError\<close> for an unknown module. The source has no cycle detection and no
  cyclic-dependency error, and a cycle among modules that the request does not reach goes
  unnoticed.
\<close>

theorem resolve_dependencies_cycle:
  assumes "n \<in> (dep_rel reg)\<^sup>* `` insert ''core'' (set R)" and "(n, n) \<in> (dep_rel reg)\<^sup>+"
  shows "(\<exists>err. resolve_dependencies reg limit R = Inl err) \<and>
         (deps_known reg \<and> ''core'' \<in> set (keys reg) \<and> set R \<subseteq> set (keys reg)
            \<longrightarrow> resolve_dependencies reg limit R = Inl RecursionError)"
proof -
  from assms have "\<exists>err. resolve_each reg limit (''core'' # R) {} = Inl err"
    by (intro resolve_each_cycle[of n]) simp_all
  then obtain err where err: "resolve_each reg limit (''core'' # R) {} = Inl err" by blast
  have "err = RecursionError"
    if "deps_known reg" "''core'' \<in> set (keys reg)" "set R \<subseteq> set (keys reg)"
    using that err by (intro resolve_each_known[of reg "''core'' # R" limit "{}"]) simp_all
  with err show ?thesis by (auto simp: resolve_dependencies_def)
qed

text \<open>
  The amended C3 at \<open>cyclic_registry\<close>, request \<^verbatim>\<open>['b']\<close>, with fifty frames available.
\<close>

theorem resolve_dependencies_cycle_witness:
  "resolve_dependencies cyclic_registry 50 [''b''] = Inl RecursionError"
proof -
  have "(''b'', ''b'') \<in> (dep_rel cyclic_registry)\<^sup>+"
    using cyclic_registry_facts(4,3) by (rule trancl_into_trancl2[OF _ r_into_trancl])
  moreover have "''b'' \<in> (dep_rel cyclic_registry)\<^sup>* `` insert ''core'' (set [''b''])" by auto
  ultimately show ?thesis
    using resolve_dependencies_cycle[of "''b''" cyclic_registry "[''b'']" 50]
      cyclic_registry_facts(1,2) by simp
qed

text \<open>
  The level that \<^verbatim>\<open>ValueError(...)\<close> takes: in \<open>ghost_registry\<close>, with two levels free
  the unknown dependency of \<^verbatim>\<open>core\<close> is met in the last admitted frame and the
  interpreter raises \<^verbatim>\<open>RecursionError\<close>; with three the unknown-module error is raised.
\<close>

lemma unknown_module_last_frame:
  "resolve_dependencies ghost_registry 2 [] = Inl RecursionError \<and>
   resolve_dependencies ghost_registry 3 [] = Inl (ValueError ''Unknown module: ghost'')"
  by (simp add: resolve_dependencies_def ghost_registry_def plain_module_def eval_nat_numeral)

text \<open>
  Claim C4. Let the registry be acyclic and the recursion limit exceed its size by more
  than one (the frame that meets the unknown name needs a further level to build the
  exception, see \<open>unknown_module_last_frame\<close>), and let
  some name that is no key of the registry be requested or reachable from \<^verbatim>\<open>core\<close> or
  a requested name through declared dependencies. Then \<^verbatim>\<open>resolve_dependencies\<close> returns
  no set: it raises the \<^verbatim>\<open>ValueError\<close> \<^verbatim>\<open>Unknown module: u\<close> for a name \<open>u\<close> that is
  no key. \<^verbatim>\<open>main\<close>, when it resolves this request, prints that error and returns 1
  without invoking any process: neither \<^verbatim>\<open>build_library\<close> nor \<^verbatim>\<open>build_tests\<close> runs.
\<close>

theorem unknown_module_aborts:
  assumes "n \<in> (dep_rel reg)\<^sup>* `` insert ''core'' (set R)" and "n \<notin> set (keys reg)"
    and "acyclic (dep_rel reg)" and "Suc (length reg) < limit"
    and "\<not> arg_list_modules a" and "iter e ModulesToBuild (modules_to_build reg a) = R"
  shows "\<exists>u. u \<notin> set (keys reg) \<and>
             resolve_dependencies reg limit R = Inl (ValueError (''Unknown module: '' @ u)) \<and>
             main reg e limit a w =
               (1, py_print (colorize (''Error: Unknown module: '' @ u) RED) w)"
proof -
  from assms(1,2) have "\<exists>err. resolve_each reg limit (''core'' # R) {} = Inl err"
    by (intro resolve_each_unknown[of n]) simp_all
  then obtain err where err: "resolve_each reg limit (''core'' # R) {} = Inl err" by blast
  from assms(3,4) have "resolve_each reg limit (''core'' # R) {} \<noteq> Inl RecursionError"
    by (rule resolve_each_no_recursion_error)
  with err have "err \<noteq> RecursionError" by auto
  with resolve_error(2) err obtain u where u: "u \<notin> set (keys reg)"
    "err = ValueError (''Unknown module: '' @ u)" by blast
  from err u(2) have r: "resolve_dependencies reg limit R = Inl (ValueError (''Unknown module: '' @ u))"
    by (simp add: resolve_dependencies_def)
  with assms(5,6) have "main reg e limit a w =
      (1, py_print (colorize (''Error: Unknown module: '' @ u) RED) w)"
    by (simp add: main_def main_body_def)
  with u(1) r show ?thesis by blast
qed

text \<open>
  C4 at the shipped registry for the command line \<^verbatim>\<open>--modules bogus --test\<close>: nothing is
  invoked and the exit code is 1.
\<close>

theorem unknown_module_aborts_witness:
  "\<exists>u w'. resolve_dependencies modules 1000 [''bogus''] =
             Inl (ValueError (''Unknown module: '' @ u)) \<and>
          main modules sample_env 1000
            \<lparr>arg_modules = [''bogus''], arg_list_modules = False, arg_minimal = False,
             arg_full = False, arg_compiler = ''g++'', arg_build_type = ''release'',
             arg_test = True, arg_test_only = False\<rparr> empty_world = (1, w') \<and>
          invoked w' = []"
proof -
  have "''bogus'' \<in> (dep_rel modules)\<^sup>* `` insert ''core'' (set [''bogus''])" by auto
  moreover have "''bogus'' \<notin> set (keys modules)" by (simp add: modules_keys)
  moreover have "Suc (length modules) < 1000" by (simp add: modules_def)
  moreover have "iter sample_env ModulesToBuild
      (modules_to_build modules
         \<lparr>arg_modules = [''bogus''], arg_list_modules = False, arg_minimal = False,
          arg_full = False, arg_compiler = ''g++'', arg_build_type = ''release'',
          arg_test = True, arg_test_only = False\<rparr>) = [''bogus'']"
    by (simp add: sample_env_def modules_to_build_def)
  ultimately obtain u where
    u: "resolve_dependencies modules 1000 [''bogus''] = Inl (ValueError (''Unknown module: '' @ u))"
       "main modules sample_env 1000
            \<lparr>arg_modules = [''bogus''], arg_list_modules = False, arg_minimal = False,
             arg_full = False, arg_compiler = ''g++'', arg_build_type = ''release'',
             arg_test = True, arg_test_only = False\<rparr> empty_world =
          (1, py_print (colorize (''Error: Unknown module: '' @ u) RED) empty_world)"
    using unknown_module_aborts[of "''bogus''" modules "[''bogus'']" 1000 _ sample_env empty_world,
            OF _ _ modules_acyclic]
    by (metis args.select_convs(2))
  have "invoked (py_print (colorize (''Error: Unknown module: '' @ u) RED) empty_world) = []"
    by (simp add: py_print_def empty_world_def)
  with u show ?thesis by blast
qed

section \<open>Properties of the build functions\<close>

subsection \<open>Gathering sources and defines\<close>

lemma collect_module_sources_fst:
  "fst (collect_module_sources e srcs acc w) =
     acc @ filter (exists e) (map (path_join (src_dir e)) srcs)"
  by (induction srcs arbitrary: acc w) (simp_all add: Let_def)

lemma collect_module_sources_invoked:
  "invoked (snd (collect_module_sources e srcs acc w)) = invoked w"
  by (induction srcs arbitrary: acc w) (simp_all add: Let_def py_print_def)

lemma collect_sources_loop_invoked:
  "invoked (snd (collect_sources_loop reg e ms acc w)) = invoked w"
proof (induction ms arbitrary: acc w)
  case Nil
  then show ?case by simp
next
  case (Cons n ms)
  show ?case
  proof (cases "map_of reg n")
    case None
    then show ?thesis by simp
  next
    case (Some m)
    obtain acc' w' where c: "collect_module_sources e (sources m) acc w = (acc', w')"
      by (cases "collect_module_sources e (sources m) acc w")
    with collect_module_sources_invoked[of e "sources m" acc w] have "invoked w' = invoked w"
      by simp
    with Some c Cons.IH[of acc' w'] show ?thesis by simp
  qed
qed

lemma collect_sources_loop_fst:
  assumes "set ms \<subseteq> set (keys reg)"
  shows "fst (collect_sources_loop reg e ms acc w) = Inr (acc @ source_files reg e ms)"
  using assms
proof (induction ms arbitrary: acc w)
  case Nil
  then show ?case by (simp add: source_files_def)
next
  case (Cons n ms)
  from Cons.prems have "n \<in> set (keys reg)" by simp
  then obtain m where m: "map_of reg n = Some m"
    using map_of_None_keys[of reg n] by (cases "map_of reg n") auto
  obtain acc' w' where c: "collect_module_sources e (sources m) acc w = (acc', w')"
    by (cases "collect_module_sources e (sources m) acc w")
  with collect_module_sources_fst[of e "sources m" acc w]
  have acc': "acc' = acc @ filter (exists e) (map (path_join (src_dir e)) (sources m))" by simp
  from Cons.prems have "set ms \<subseteq> set (keys reg)" by simp
  from Cons.IH[OF this, of acc' w'] m c acc' show ?case
    by (simp add: source_files_def)
qed

lemma collect_sources_Inr:
  assumes "set ms \<subseteq> set (keys reg)"
  obtains w' where "collect_sources reg e ms w = (Inr (source_files reg e ms), w')"
    and "invoked w' = invoked w"
proof -
  from collect_sources_loop_fst[OF assms, of e "[]" w]
  have "fst (collect_sources reg e ms w) = Inr (source_files reg e ms)"
    by (simp add: collect_sources_def)
  moreover have "invoked (snd (collect_sources reg e ms w)) = invoked w"
    by (simp add: collect_sources_def collect_sources_loop_invoked)
  ultimately show ?thesis using that[of "snd (collect_sources reg e ms w)"]
    by (metis prod.collapse)
qed

lemma collect_defines_loop_Inr:
  assumes "set ms \<subseteq> set (keys reg)"
  shows "collect_defines_loop reg ms acc = Inr (acc @ define_tokens reg ms)"
  using assms
proof (induction ms arbitrary: acc)
  case Nil
  then show ?case by (simp add: define_tokens_def)
next
  case (Cons n ms)
  from Cons.prems have "n \<in> set (keys reg)" by simp
  then obtain m where m: "map_of reg n = Some m"
    using map_of_None_keys[of reg n] by (cases "map_of reg n") auto
  from Cons.prems have "set ms \<subseteq> set (keys reg)" by simp
  from Cons.IH[OF this, of "acc @ defines m"] m show ?case
    by (simp add: define_tokens_def)
qed

lemma collect_defines_Inr:
  "set ms \<subseteq> set (keys reg) \<Longrightarrow> collect_defines reg ms = Inr (define_tokens reg ms)"
  by (simp add: collect_defines_def collect_defines_loop_Inr)

lemma mset_concat_map_cong:
  assumes "mset xs = mset ys"
  shows "mset (concat (map f xs)) = mset (concat (map f ys))"
proof -
  have "mset (concat (map f zs)) = sum_mset (image_mset (\<lambda>z. mset (f z)) (mset zs))" for zs
    by (induction zs) simp_all
  with assms show ?thesis by simp
qed

text \<open>
  Claim C2 does not hold of the source: \<^verbatim>\<open>collect_sources\<close> runs
  \<^verbatim>\<open>for module_name in modules\<close> over the set it is given and appends as it goes. The
  set \<^verbatim>\<open>{'core', 'math_utils', 'string_utils'}\<close> is dependency-closed; when its iterator
  yields \<^verbatim>\<open>math_utils\<close> before \<^verbatim>\<open>string_utils\<close> the sources come out in that order,
  against the declaration order of the registry, and when it yields them the other way
  round the sequence differs. Nothing is de-duplicated either: in \<open>registry_shared\<close>,
  where two modules declare the same file, the file is gathered twice (in the shipped
  registry no file is declared twice).
\<close>

theorem collect_sources_order_counterexample:
  "fst (collect_sources modules sample_env [''core'', ''math_utils'', ''string_utils''] empty_world)
     = Inr [''/repo/src/modules/math_utils.cpp'', ''/repo/src/modules/string_utils.cpp''] \<and>
   fst (collect_sources modules sample_env [''core'', ''string_utils'', ''math_utils''] empty_world)
     = Inr [''/repo/src/modules/string_utils.cpp'', ''/repo/src/modules/math_utils.cpp''] \<and>
   fst (collect_sources registry_shared sample_env [''core'', ''alpha'', ''beta''] empty_world)
     = Inr [''/repo/src/shared.cpp'', ''/repo/src/shared.cpp'']"
  by (simp add: collect_sources_def modules_def registry_shared_def plain_module_def
        sample_env_def src_dir_def path_join_def)

text \<open>
  Claim C2, amended. For a set of registered modules, \<^verbatim>\<open>collect_sources\<close> returns, for
  each module in the order in which the set iterator yields the modules, the module's
  declared sources that exist, in the order the module declares them, without
  de-duplication. Two iteration orders of the same set yield the same files with the
  same multiplicities, in a possibly different sequence.
\<close>

theorem collect_sources_iteration_order:
  assumes "set ms \<subseteq> set (keys reg)" and "distinct ms" and "distinct ms'" and "set ms' = set ms"
  shows "fst (collect_sources reg e ms w) = Inr (source_files reg e ms) \<and>
         fst (collect_sources reg e ms' w) = Inr (source_files reg e ms') \<and>
         mset (source_files reg e ms') = mset (source_files reg e ms)"
proof -
  from assms(2-4) have "mset ms' = mset ms" by (simp add: set_eq_iff_mset_eq_distinct)
  then have "mset (source_files reg e ms') = mset (source_files reg e ms)"
    unfolding source_files_def by (rule mset_concat_map_cong)
  moreover from assms(1) have "fst (collect_sources reg e ms w) = Inr (source_files reg e ms)"
    by (simp add: collect_sources_def collect_sources_loop_fst)
  moreover from assms(1,4) have "fst (collect_sources reg e ms' w) = Inr (source_files reg e ms')"
    by (simp add: collect_sources_def collect_sources_loop_fst)
  ultimately show ?thesis by simp
qed

text \<open>
  The amended C2 at the shipped registry, for two iteration orders of the set
  \<^verbatim>\<open>{'core', 'math_utils', 'string_utils'}\<close>.
\<close>

theorem collect_sources_iteration_order_witness:
  "fst (collect_sources modules sample_env [''core'', ''math_utils'', ''string_utils''] empty_world)
     = Inr (source_files modules sample_env [''core'', ''math_utils'', ''string_utils'']) \<and>
   fst (collect_sources modules sample_env [''string_utils'', ''core'', ''math_utils''] empty_world)
     = Inr (source_files modules sample_env [''string_utils'', ''core'', ''math_utils'']) \<and>
   mset (source_files modules sample_env [''string_utils'', ''core'', ''math_utils''])
     = mset (source_files modules sample_env [''core'', ''math_utils'', ''string_utils''])"
  using collect_sources_iteration_order
          [of "[''core'', ''math_utils'', ''string_utils'']" modules
              "[''string_utils'', ''core'', ''math_utils'']" sample_env empty_world]
  by (simp add: modules_keys insert_commute)

subsection \<open>\<^verbatim>\<open>build_library\<close> when a compilation fails\<close>

lemma first_failure_SomeD:
  "first_failure e cmd_of srcs history = Some (src, result) \<Longrightarrow>
     src \<in> set srcs \<and> returncode result \<noteq> 0"
  by (induction srcs arbitrary: history) (auto split: if_splits)

lemma compile_sources_failure:
  assumes "first_failure e cmd_of srcs (invoked w) = Some (src, result)"
  shows "\<exists>w' k ls. compile_sources e cmd_of obj_of srcs objs w = (None, w') \<and>
           invoked w' = invoked w @ map cmd_of (take k srcs) \<and>
           printed w' = ls @ [colorize (''Compilation error '' @ path_name src @ '':'') RED,
                              stderr result]"
  using assms
proof (induction srcs arbitrary: objs w)
  case Nil
  then show ?case by simp
next
  case (Cons s rest)
  let ?r = "run e (invoked w) (cmd_of s)"
  let ?w1 = "py_print (''Compiling '' @ path_name s @ ''...'') w"
  let ?w2 = "?w1\<lparr>invoked := invoked ?w1 @ [cmd_of s]\<rparr>"
  have run: "subprocess_run e (cmd_of s) ?w1 = (?r, ?w2)"
    by (simp add: subprocess_run_def py_print_def)
  have inv2: "invoked ?w2 = invoked w @ [cmd_of s]" by (simp add: py_print_def)
  show ?case
  proof (cases "returncode ?r \<noteq> 0")
    case True
    with Cons.prems have sr: "src = s" "result = ?r" by auto
    let ?w' = "py_print (stderr ?r)
                 (py_print (colorize (''Compilation error '' @ path_name s @ '':'') RED) ?w2)"
    from True run have "compile_sources e cmd_of obj_of (s # rest) objs w = (None, ?w')"
      by simp
    moreover have "invoked ?w' = invoked w @ map cmd_of (take 1 (s # rest))"
      by (simp add: py_print_def)
    moreover have "printed ?w' = (printed w @ [''Compiling '' @ path_name s @ ''...'']) @
        [colorize (''Compilation error '' @ path_name s @ '':'') RED, stderr ?r]"
      by (simp add: py_print_def)
    ultimately show ?thesis unfolding sr by blast
  next
    case False
    with Cons.prems inv2 have "first_failure e cmd_of rest (invoked ?w2) = Some (src, result)"
      by simp
    from Cons.IH[OF this, of "objs @ [obj_of s]"] obtain w' k ls where
      ih: "compile_sources e cmd_of obj_of rest (objs @ [obj_of s]) ?w2 = (None, w')"
        "invoked w' = invoked ?w2 @ map cmd_of (take k rest)"
        "printed w' = ls @ [colorize (''Compilation error '' @ path_name src @ '':'') RED,
                              stderr result]" by blast
    from False run ih(1) have "compile_sources e cmd_of obj_of (s # rest) objs w = (None, w')"
      by simp
    moreover from ih(2) inv2 have "invoked w' = invoked w @ map cmd_of (take (Suc k) (s # rest))"
      by simp
    ultimately show ?thesis using ih(3) by blast
  qed
qed

lemma get_compiler_command_hd:
  assumes "get_compiler_command compiler build_type = Inr base"
  shows "base \<noteq> [] \<and> (hd base = ''g++'' \<or> hd base = ''clang++'' \<or> hd base = ''cl'')"
  using assms
  by (auto simp: get_compiler_command_def compilers_def split: option.splits if_splits)

lemma compile_command_not_archiver:
  assumes "get_compiler_command compiler build_type = Inr base"
  shows "\<not> is_archiver_command (compile_command e compiler base defs srcs src)"
proof -
  from get_compiler_command_hd[OF assms] obtain c cs where
    "base = c # cs" "c = ''g++'' \<or> c = ''clang++'' \<or> c = ''cl''"
    by (cases base) auto
  then show ?thesis by (auto simp: is_archiver_command_def compile_command_def)
qed

text \<open>
  Claim C5 does not hold of the source in one point: the failure report of
  \<^verbatim>\<open>build_library\<close> is the line \<^verbatim>\<open>Compilation error <file name>:\<close> followed by the captured
  \<^verbatim>\<open>stderr\<close>, and it does not name the module of the file. The registries \<open>registry_ab\<close>
  and \<open>registry_ba\<close> differ in which of \<^verbatim>\<open>alpha\<close> and \<^verbatim>\<open>beta\<close> declares the failing
  \<^verbatim>\<open>b.cpp\<close>; the two builds print the same lines and invoke the same commands.
\<close>

theorem build_library_report_counterexample:
  "printed (snd (build_library registry_ab env_b_fails [''core'', ''alpha'', ''beta'']
                   ''g++'' ''release'' empty_world)) =
     [colorize ''Building library with modules: alpha, beta, core'' BOLD,
      ''Compiling a.cpp...'', ''Compiling b.cpp...'',
      colorize ''Compilation error b.cpp:'' RED, ''b.cpp:1: error''] \<and>
   build_library registry_ba env_b_fails [''core'', ''beta'', ''alpha''] ''g++'' ''release'' empty_world =
   build_library registry_ab env_b_fails [''core'', ''alpha'', ''beta''] ''g++'' ''release'' empty_world"
  by (simp add: build_library_def collect_sources_def collect_defines_def registry_ab_def
        registry_ba_def plain_module_def env_b_fails_def empty_world_def py_print_def
        src_dir_def build_dir_def include_dir_def path_join_def path_name_def path_stem_def
        get_compiler_command_def compilers_def compile_command_def object_file_def
        subprocess_run_def ok_process_def Let_def)

text \<open>
  Claim C5, amended. Let the modules be registered and the compiler known, and let the
  compilation of some source file exit non-zero, \<open>src\<close> being the first such file and
  \<open>result\<close> its completed process. Then \<^verbatim>\<open>build_library\<close> returns \<^verbatim>\<open>False\<close>; the commands
  it has invoked are compiler runs only, so the archiver is never started and no archive
  is written or updated; and the last two items printed are the error line with the
  name of the offending file and the captured \<^verbatim>\<open>stderr\<close>. The report does not name
  the module.
\<close>

theorem build_library_compile_failure:
  assumes "set ms \<subseteq> set (keys reg)"
    and "get_compiler_command compiler build_type = Inr base"
    and "first_failure e
           (compile_command e compiler base (define_tokens reg ms) (source_files reg e ms))
           (source_files reg e ms) (invoked w) = Some (src, result)"
  shows "\<exists>w' cmds ls.
           build_library reg e ms compiler build_type w = (Inr False, w') \<and>
           invoked w' = invoked w @ cmds \<and> (\<forall>c \<in> set cmds. \<not> is_archiver_command c) \<and>
           printed w' = ls @ [colorize (''Compilation error '' @ path_name src @ '':'') RED,
                              stderr result] \<and>
           src \<in> set (source_files reg e ms) \<and> returncode result \<noteq> 0"
proof -
  let ?w0 = "py_print (colorize (''Building library with modules: '' @ join '', '' (sort ms)) BOLD) w"
  let ?srcs = "source_files reg e ms"
  let ?cmd_of = "compile_command e compiler base (define_tokens reg ms) ?srcs"
  from assms(1) obtain w1 where w1: "collect_sources reg e ms ?w0 = (Inr ?srcs, w1)"
    and inv1: "invoked w1 = invoked ?w0" by (rule collect_sources_Inr)
  from inv1 have inv1': "invoked w1 = invoked w" by (simp add: py_print_def)
  from assms(1) have defs: "collect_defines reg ms = Inr (define_tokens reg ms)"
    by (rule collect_defines_Inr)
  from first_failure_SomeD[OF assms(3)] have mem: "src \<in> set ?srcs" and rc: "returncode result \<noteq> 0"
    by simp_all
  from mem have ne: "?srcs \<noteq> []" by auto
  from assms(3) inv1' have "first_failure e ?cmd_of ?srcs (invoked w1) = Some (src, result)"
    by simp
  from compile_sources_failure[OF this, of "object_file e compiler" "[]"]
  obtain w' k ls where c: "compile_sources e ?cmd_of (object_file e compiler) ?srcs [] w1 = (None, w')"
    and inv: "invoked w' = invoked w1 @ map ?cmd_of (take k ?srcs)"
    and pr: "printed w' = ls @ [colorize (''Compilation error '' @ path_name src @ '':'') RED,
                              stderr result]" by blast
  from w1 defs ne assms(2) c
  have "build_library reg e ms compiler build_type w = (Inr False, w')"
    by (simp add: build_library_def)
  moreover from inv inv1' have "invoked w' = invoked w @ map ?cmd_of (take k ?srcs)" by simp
  moreover have "\<forall>c \<in> set (map ?cmd_of (take k ?srcs)). \<not> is_archiver_command c"
    using compile_command_not_archiver[OF assms(2)] by auto
  ultimately show ?thesis using pr mem rc by blast
qed

text \<open>
  The amended C5 at the shipped registry: with \<^verbatim>\<open>g++\<close>, compiling \<^verbatim>\<open>math_utils.cpp\<close>
  fails in \<open>sample_env\<close>.
\<close>

theorem build_library_compile_failure_witness:
  "\<exists>w' cmds ls.
     build_library modules sample_env [''core'', ''math_utils'', ''string_utils'']
       ''g++'' ''release'' empty_world = (Inr False, w') \<and>
     invoked w' = invoked empty_world @ cmds \<and> (\<forall>c \<in> set cmds. \<not> is_archiver_command c) \<and>
     printed w' = ls @ [colorize ''Compilation error math_utils.cpp:'' RED,
                        ''math_utils.cpp:1: error'']"
proof -
  have k: "set [''core'', ''math_utils'', ''string_utils''] \<subseteq> set (keys modules)"
    by (simp add: modules_keys)
  have g: "get_compiler_command ''g++'' ''release'' =
      Inr [''g++'', ''-std=c++17'', ''-Wall'', ''-Wextra'', ''-Wpedantic'', ''-O2'', ''-DNDEBUG'']"
    by (simp add: get_compiler_command_def compilers_def)
  have s: "source_files modules sample_env [''core'', ''math_utils'', ''string_utils''] =
      [''/repo/src/modules/math_utils.cpp'', ''/repo/src/modules/string_utils.cpp'']"
    by (simp add: source_files_def modules_def sample_env_def src_dir_def path_join_def)
  have f: "first_failure sample_env
      (compile_command sample_env ''g++''
         [''g++'', ''-std=c++17'', ''-Wall'', ''-Wextra'', ''-Wpedantic'', ''-O2'', ''-DNDEBUG'']
         (define_tokens modules [''core'', ''math_utils'', ''string_utils''])
         (source_files modules sample_env [''core'', ''math_utils'', ''string_utils'']))
      (source_files modules sample_env [''core'', ''math_utils'', ''string_utils''])
      (invoked empty_world) =
      Some (''/repo/src/modules/math_utils.cpp'',
            \<lparr>returncode = 1, stdout = [], stderr = ''math_utils.cpp:1: error''\<rparr>)"
    unfolding s by (simp add: compile_command_def sample_env_def)
  have n: "path_name ''/repo/src/modules/math_utils.cpp'' = ''math_utils.cpp''"
    by (simp add: path_name_def)
  from build_library_compile_failure[OF k g f] show ?thesis
    unfolding n by (elim exE conjE, intro exI conjI) simp_all
qed

subsection \<open>\<^verbatim>\<open>build_tests\<close>\<close>








subsection \<open>The module set of the test phase\<close>

lemma print_selected_Inr:
  assumes "set xs \<subseteq> set (keys reg)"
  shows "\<exists>w'. print_selected reg xs w = (Inr (), w') \<and> invoked w' = invoked w"
  using assms
proof (induction xs arbitrary: w)
  case Nil
  then show ?case by simp
next
  case (Cons n xs)
  from Cons.prems have "n \<in> set (keys reg)" by simp
  then obtain m where m: "map_of reg n = Some m"
    using map_of_None_keys[of reg n] by (cases "map_of reg n") auto
  from Cons.prems have "set xs \<subseteq> set (keys reg)" by simp
  let ?w1 = "py_print (''  '' @ [CHR 0xE2, CHR 0x80, CHR 0xA2] @ '' '' @ colorize n YELLOW @
                       '' - '' @ description m) w"
  from Cons.IH[OF \<open>set xs \<subseteq> set (keys reg)\<close>, of ?w1] obtain w' where
    "print_selected reg xs ?w1 = (Inr (), w')" "invoked w' = invoked ?w1" by blast
  moreover have "invoked ?w1 = invoked w" by (simp add: py_print_def)
  ultimately show ?case using m by simp
qed

lemma define_tokens_member:
  assumes "n \<in> set ms" and "map_of reg n = Some m"
  shows "set (defines m) \<subseteq> set (define_tokens reg ms)"
  using assms by (force simp: define_tokens_def)

lemma source_files_member:
  assumes "n \<in> set ms" and "map_of reg n = Some m" and "src \<in> set (sources m)"
    and "exists e (path_join (src_dir e) src)"
  shows "path_join (src_dir e) src \<in> set (source_files reg e ms)"
  using assms by (force simp: source_files_def)

lemma test_framework_entry:
  "map_of modules ''test_framework'' =
     Some \<lparr>description = ''Custom testing framework'', depends = [''core''],
           headers = [''badcpplib/test_framework.hpp''], sources = [''modules/test_framework.cpp''],
           defines = [''BADCPPLIB_ENABLE_TEST''], required = False\<rparr>"
  by (simp add: modules_def)

lemma test_modules_closed:
  assumes "dependency_closed modules S" and "''core'' \<in> S"
  shows "dependency_closed modules (test_modules S)"
  using assms unfolding dependency_closed_def test_modules_def
  by (auto simp: test_framework_entry)

lemma iterates_set:
  assumes "iterates e" and "finite S"
  shows "set (iter e obj S) = S"
  using assms by (simp add: iterates_def)

text \<open>
  Claim C10. At the shipped registry, let \<^verbatim>\<open>main\<close> resolve its request to the set \<open>S\<close>
  and let tests be requested (\<^verbatim>\<open>--test\<close> or \<^verbatim>\<open>--test-only\<close>). Then the test phase is
  \<^verbatim>\<open>build_tests\<close> run on the set \<open>S \<union> {test_framework}\<close>, after the library phase if that
  is not skipped; this set is dependency-closed and registered; and whether or not
  \<^verbatim>\<open>test_framework\<close> was requested, its define token is among the defines of the test
  commands, and its test file and its source file, where they exist, are among the
  discovered tests and the gathered sources.
\<close>

theorem test_phase_modules:
  assumes "resolve_dependencies modules limit (iter e ModulesToBuild (modules_to_build modules a)) = Inr S"
    and "arg_test a \<or> arg_test_only a" and "iterates e"
    and "ms = iter e TestModules (test_modules S)"
  shows "set ms = S \<union> {''test_framework''} \<and>
         dependency_closed modules (S \<union> {''test_framework''}) \<and>
         S \<union> {''test_framework''} \<subseteq> set (keys modules) \<and>
         (\<exists>w1. invoked w1 = invoked w \<and>
            main_body modules e limit a w =
              (case (if \<not> arg_test_only a
                     then build_library modules e (iter e ResolvedModules S)
                            (arg_compiler a) (arg_build_type a) w1
                     else (Inr True, w1)) of
                 (Inl err, w2) \<Rightarrow> (Inl err, w2)
               | (Inr success, w2) \<Rightarrow>
                   (case build_tests modules e ms (arg_compiler a) (arg_build_type a) w2 of
                      (Inl err, w3) \<Rightarrow> (Inl err, w3)
                    | (Inr test_success, w3) \<Rightarrow> (Inr (success \<and> test_success), w3)))) \<and>
         collect_defines modules ms = Inr (define_tokens modules ms) \<and>
         ''BADCPPLIB_ENABLE_TEST'' \<in> set (define_tokens modules ms) \<and>
         (exists e (module_test_file e ''test_framework'')
            \<longrightarrow> module_test_file e ''test_framework'' \<in> set (test_files e ms)) \<and>
         (exists e (path_join (src_dir e) ''modules/test_framework.cpp'')
            \<longrightarrow> path_join (src_dir e) ''modules/test_framework.cpp''
                  \<in> set (source_files modules e ms))"
proof -
  note props = resolve_dependencies_Inr[OF assms(1)]
  from props(1) have core: "''core'' \<in> S" by blast
  from props(5) have fin: "finite (test_modules S)" by (simp add: test_modules_def)
  with assms(3,4) have ms: "set ms = S \<union> {''test_framework''}"
    by (simp add: iterates_set test_modules_def)
  from props(2) core have cl: "dependency_closed modules (S \<union> {''test_framework''})"
    using test_modules_closed[of S] by (simp add: test_modules_def)
  from props(3) have reg: "S \<union> {''test_framework''} \<subseteq> set (keys modules)"
    by (simp add: modules_keys)
  from props(3,5) have "set (sorted_list_of_set S) \<subseteq> set (keys modules)" by simp
  from print_selected_Inr[OF this, of "py_print (colorize ''Selected modules:'' BOLD) w"]
  obtain w0 where w0: "print_selected modules (sorted_list_of_set S)
        (py_print (colorize ''Selected modules:'' BOLD) w) = (Inr (), w0)"
    and inv0: "invoked w0 = invoked (py_print (colorize ''Selected modules:'' BOLD) w)" by blast
  let ?w1 = "py_print [] w0"
  from inv0 have inv1: "invoked ?w1 = invoked w" by (simp add: py_print_def)
  from assms(1,2,4) w0 have mb: "main_body modules e limit a w =
      (case (if \<not> arg_test_only a
             then build_library modules e (iter e ResolvedModules S)
                    (arg_compiler a) (arg_build_type a) ?w1
             else (Inr True, ?w1)) of
         (Inl err, w2) \<Rightarrow> (Inl err, w2)
       | (Inr success, w2) \<Rightarrow>
           (case build_tests modules e ms (arg_compiler a) (arg_build_type a) w2 of
              (Inl err, w3) \<Rightarrow> (Inl err, w3)
            | (Inr test_success, w3) \<Rightarrow> (Inr (success \<and> test_success), w3)))"
    by (auto simp: main_body_def split: prod.splits sum.splits)
  from ms reg have sub: "set ms \<subseteq> set (keys modules)" by simp
  then have cd: "collect_defines modules ms = Inr (define_tokens modules ms)"
    by (rule collect_defines_Inr)
  from ms have tf: "''test_framework'' \<in> set ms" by simp
  from define_tokens_member[OF tf test_framework_entry]
  have tok: "''BADCPPLIB_ENABLE_TEST'' \<in> set (define_tokens modules ms)" by simp
  from tf have tst: "exists e (module_test_file e ''test_framework'')
      \<longrightarrow> module_test_file e ''test_framework'' \<in> set (test_files e ms)"
    by (simp add: test_files_def)
  have src: "exists e (path_join (src_dir e) ''modules/test_framework.cpp'')
      \<longrightarrow> path_join (src_dir e) ''modules/test_framework.cpp'' \<in> set (source_files modules e ms)"
    using source_files_member[OF tf test_framework_entry, of "''modules/test_framework.cpp''" e]
    by simp
  from inv1 mb have "\<exists>w1. invoked w1 = invoked w \<and>
            main_body modules e limit a w =
              (case (if \<not> arg_test_only a
                     then build_library modules e (iter e ResolvedModules S)
                            (arg_compiler a) (arg_build_type a) w1
                     else (Inr True, w1)) of
                 (Inl err, w2) \<Rightarrow> (Inl err, w2)
               | (Inr success, w2) \<Rightarrow>
                   (case build_tests modules e ms (arg_compiler a) (arg_build_type a) w2 of
                      (Inl err, w3) \<Rightarrow> (Inl err, w3)
                    | (Inr test_success, w3) \<Rightarrow> (Inr (success \<and> test_success), w3)))"
    by blast
  with ms cl reg cd tok tst src show ?thesis by (intro conjI)
qed

text \<open>
  C10 at the command line \<^verbatim>\<open>--modules debug --test\<close>: \<^verbatim>\<open>test_framework\<close> is not
  requested, yet it is in the set of the test phase, which is dependency-closed, and its
  define token reaches the test commands.
\<close>

theorem test_phase_modules_witness:
  "\<exists>S. resolve_dependencies modules 1000 [''debug''] = Inr S \<and>
       set (iter sample_env TestModules (test_modules S)) = S \<union> {''test_framework''} \<and>
       dependency_closed modules (S \<union> {''test_framework''}) \<and>
       ''BADCPPLIB_ENABLE_TEST''
         \<in> set (define_tokens modules (iter sample_env TestModules (test_modules S)))"
proof -
  let ?a = "\<lparr>arg_modules = [''debug''], arg_list_modules = False, arg_minimal = False,
             arg_full = False, arg_compiler = ''g++'', arg_build_type = ''release'',
             arg_test = True, arg_test_only = False\<rparr>"
  have req: "iter sample_env ModulesToBuild (modules_to_build modules ?a) = [''debug'']"
    by (simp add: sample_env_def modules_to_build_def)
  have "\<exists>S. resolve_dependencies modules 1000 [''debug''] = Inr S"
    by (rule resolve_dependencies_total[OF modules_acyclic modules_deps_known])
       (simp_all add: modules_keys, simp add: modules_def)
  then obtain S where S: "resolve_dependencies modules 1000 [''debug''] = Inr S" by blast
  have it: "iterates sample_env" by (simp add: iterates_def sample_env_def)
  have t: "arg_test ?a \<or> arg_test_only ?a" by simp
  from S req have r: "resolve_dependencies modules 1000
      (iter sample_env ModulesToBuild (modules_to_build modules ?a)) = Inr S" by simp
  from test_phase_modules[OF r t it refl, of empty_world] S show ?thesis by blast
qed

end
